(* ===== verification/Prelude.thy ===== *)
theory Prelude
  imports Main
begin

text \<open>
  Shared vocabulary of the development: the clock of the server (milliseconds as
  returned by \<^verbatim>\<open>Date.now()\<close>), JavaScript truthiness of the string values
  the handlers test with \<^verbatim>\<open>if(x)\<close> and \<^verbatim>\<open>!x\<close>, and the generic
  lemmas on lists and association lists that the cache and resolver proofs share.
\<close>

named_theorems alist_simps "rewrite rules for association lists filtered by key"

type_synonym time = nat

text \<open>
  A JavaScript string is falsy exactly when it is empty. A query parameter that may
  be absent (\<^verbatim>\<open>req.query.ref\<close>) is a \<open>string option\<close>; \<open>undefined\<close>
  is falsy as well.
\<close>

definition js_truthy :: "string \<Rightarrow> bool" where
  "js_truthy s \<longleftrightarrow> s \<noteq> []"

fun js_truthy_opt :: "string option \<Rightarrow> bool" where
  "js_truthy_opt None = False"
| "js_truthy_opt (Some s) = js_truthy s"

lemma js_truthy_Nil [simp]: "\<not> js_truthy []"
  by (simp add: js_truthy_def)

lemma js_truthy_Cons [simp]: "js_truthy (c # s)"
  by (simp add: js_truthy_def)

lemma js_truthy_append [simp]: "js_truthy (a @ b) \<longleftrightarrow> js_truthy a \<or> js_truthy b"
  by (simp add: js_truthy_def)

lemma js_truthy_opt_iff: "js_truthy_opt r \<longleftrightarrow> (\<exists>s. r = Some s \<and> s \<noteq> [])"
  by (cases r) (auto simp: js_truthy_def)

text \<open>
  \<^verbatim>\<open>req.query.ref\<close> is whatever the query parser of Express made of the query
  string: a string (\<^verbatim>\<open>?ref=main\<close>), an array of strings (\<^verbatim>\<open>?ref=a&ref=b\<close>,
  \<^verbatim>\<open>?ref[]=a\<close>) or an object (\<^verbatim>\<open>?ref[k]=v\<close>). Every array and every object is
  truthy, even an empty array or one holding only the empty string; the string
  conversion that \<^verbatim>\<open>+\<close> applies joins an array's elements with commas and turns an
  object into \<^verbatim>\<open>[object Object]\<close>.
\<close>

datatype jsval = JStr string | JArr "string list" | JObj "(string \<times> string) list"

text \<open>\<^verbatim>\<open>Array.prototype.join\<close> with the default separator.\<close>

fun js_join :: "string list \<Rightarrow> string" where
  "js_join [] = []"
| "js_join [x] = x"
| "js_join (x # xs) = x @ '','' @ js_join xs"

fun js_str :: "jsval \<Rightarrow> string" where
  "js_str (JStr s) = s"
| "js_str (JArr xs) = js_join xs"
| "js_str (JObj fs) = ''[object Object]''"

fun jsv_truthy :: "jsval \<Rightarrow> bool" where
  "jsv_truthy (JStr s) = js_truthy s"
| "jsv_truthy (JArr xs) = True"
| "jsv_truthy (JObj fs) = True"

fun jsv_truthy_opt :: "jsval option \<Rightarrow> bool" where
  "jsv_truthy_opt None = False"
| "jsv_truthy_opt (Some v) = jsv_truthy v"

lemma jsv_truthy_opt_iff: "jsv_truthy_opt r \<longleftrightarrow> (\<exists>v. r = Some v \<and> jsv_truthy v)"
  by (cases r) auto

subsection \<open>Separator-joined strings\<close>

text \<open>
  Splitting at the first occurrence of a separator that occurs in neither left part
  recovers both parts: the fact behind the injectivity of the cache key.
\<close>

lemma append_sep_inject:
  assumes "x \<notin> set a" and "x \<notin> set c"
  shows "a @ x # b = c @ x # d \<longleftrightarrow> a = c \<and> b = d"
  using assms
proof (induction a arbitrary: c)
  case Nil
  then show ?case by (cases c) auto
next
  case (Cons y a)
  then show ?case by (cases c) auto
qed

subsection \<open>Association lists filtered by key\<close>

text \<open>
  The entry list of the LRU cache is an association list; removing a key keeps every
  other entry in order (\<^verbatim>\<open>del\<close> of \<^verbatim>\<open>lru-cache\<close>).
\<close>

definition alist_del :: "'k \<Rightarrow> ('k \<times> 'v) list \<Rightarrow> ('k \<times> 'v) list" where
  "alist_del k xs = filter (\<lambda>e. fst e \<noteq> k) xs"

lemma map_of_alist_del [alist_simps]:
  "map_of (alist_del k xs) k' = (if k' = k then None else map_of xs k')"
  by (induction xs) (auto simp: alist_del_def)

lemma keys_alist_del [alist_simps]: "fst ` set (alist_del k xs) = fst ` set xs - {k}"
  by (auto simp: alist_del_def image_iff)

lemma distinct_alist_del [alist_simps]:
  "distinct (map fst xs) \<Longrightarrow> distinct (map fst (alist_del k xs))"
  by (induction xs) (auto simp: alist_del_def)

lemma length_alist_del_le: "length (alist_del k xs) \<le> length xs"
  by (simp add: alist_del_def)

lemma alist_del_notin [alist_simps]: "k \<notin> fst ` set xs \<Longrightarrow> alist_del k xs = xs"
  by (induction xs) (auto simp: alist_del_def)

lemma length_alist_del_in:
  "distinct (map fst xs) \<Longrightarrow> k \<in> fst ` set xs \<Longrightarrow> Suc (length (alist_del k xs)) = length xs"
proof (induction xs)
  case Nil
  then show ?case by simp
next
  case (Cons e xs)
  show ?case
  proof (cases "fst e = k")
    case True
    with Cons.prems have "k \<notin> fst ` set xs" by auto
    then have "alist_del k xs = xs" by (rule alist_del_notin)
    with True show ?thesis by (simp add: alist_del_def)
  next
    case False
    with Cons show ?thesis by (auto simp: alist_del_def)
  qed
qed

text \<open>A prefix of an association list answers for the keys it holds, and only for them.\<close>

lemma map_of_take_in:
  "k \<in> fst ` set (take n xs) \<Longrightarrow> map_of (take n xs) k = map_of xs k"
proof -
  assume k: "k \<in> fst ` set (take n xs)"
  then obtain v where v: "map_of (take n xs) k = Some v"
    by (metis map_of_eq_None_iff not_None_eq)
  have "map_of (take n xs @ drop n xs) k = Some v"
    by (simp only: map_of_append map_add_def v option.simps)
  then show ?thesis using v by simp
qed

lemma map_of_take_notin:
  "k \<notin> fst ` set (take n xs) \<Longrightarrow> map_of (take n xs) k = None"
  by (simp add: map_of_eq_None_iff)

lemma map_of_butlast_last:
  assumes "distinct (map fst xs)" and "xs \<noteq> []"
  shows "map_of (butlast xs) k = (if k = fst (last xs) then None else map_of xs k)"
proof -
  have xs: "xs = butlast xs @ [last xs]" using assms(2) by simp
  have d: "distinct (map fst (butlast xs @ [last xs]))" using assms(1) xs by simp
  then have "fst (last xs) \<notin> fst ` set (butlast xs)" by auto
  then show ?thesis
    by (subst (2) xs) (auto simp: map_add_def map_of_eq_None_iff split: option.splits)
qed

subsection \<open>Splitting strings\<close>

text \<open>\<open>js_split d s\<close> is JavaScript's \<^verbatim>\<open>s.split(d)\<close> for a one-character
  separator \<open>d\<close>: the pieces between the separators, empty pieces included.\<close>

fun js_split :: "char \<Rightarrow> string \<Rightarrow> string list" where
  "js_split d [] = [[]]"
| "js_split d (c # cs) =
     (if c = d then [] # js_split d cs
      else (case js_split d cs of s # ss \<Rightarrow> (c # s) # ss | [] \<Rightarrow> [[c]]))"

lemma js_split_nosep: "d \<notin> set a \<Longrightarrow> js_split d a = [a]"
  by (induction a) auto

lemma js_split_append_sep: "d \<notin> set a \<Longrightarrow> js_split d (a @ d # b) = a # js_split d b"
  by (induction a) auto

end
