(* ===== verification/LRU_Cache.thy ===== *)
theory LRU_Cache
  imports Prelude
begin

text \<open>
  The \<^verbatim>\<open>lru-cache\<close> package that \<^verbatim>\<open>src/index.js\<close> instantiates as
  \<^verbatim>\<open>LRU({ max: 5000, maxAge: 1000 * 5})\<close>. Its code is not part of the repository,
  so it is modelled from the Cache Store contract of the specification (section 4.1):
  a list of entries ordered from most to least recently used, each with the time it
  was written; \<open>get\<close> treats an entry at least \<open>maxAge\<close> old as absent and
  removes it lazily, a hit moves the entry to the front, \<open>set\<close> overwrites and moves
  to the front, and the trim loop drops entries from the tail while the cache holds
  more than \<open>max\<close>.
\<close>

record 'v hit =
  hit_value :: 'v
  hit_now :: time

record ('k, 'v) lru =
  lru_max :: nat
  lru_max_age :: nat
  lru_list :: "('k \<times> 'v hit) list"

definition lru_new :: "nat \<Rightarrow> nat \<Rightarrow> ('k, 'v) lru" where
  "lru_new mx age = \<lparr>lru_max = mx, lru_max_age = age, lru_list = []\<rparr>"

definition is_stale :: "('k, 'v) lru \<Rightarrow> time \<Rightarrow> 'v hit \<Rightarrow> bool" where
  "is_stale c now h \<longleftrightarrow> lru_max_age c \<le> now - hit_now h"

text \<open>The trim loop: drop the tail entry while the cache is over capacity.\<close>

function lru_trim :: "('k, 'v) lru \<Rightarrow> ('k, 'v) lru" where
  "lru_trim c =
     (if lru_max c < length (lru_list c)
      then lru_trim (c\<lparr>lru_list := butlast (lru_list c)\<rparr>) else c)"
  by pat_completeness auto
termination
  by (relation "measure (\<lambda>c. length (lru_list c))") auto

declare lru_trim.simps [simp del]

definition lru_get :: "time \<Rightarrow> 'k \<Rightarrow> ('k, 'v) lru \<Rightarrow> 'v option \<times> ('k, 'v) lru" where
  "lru_get now k c =
     (case map_of (lru_list c) k of
        None \<Rightarrow> (None, c)
      | Some h \<Rightarrow>
          if is_stale c now h then (None, c\<lparr>lru_list := alist_del k (lru_list c)\<rparr>)
          else (Some (hit_value h), c\<lparr>lru_list := (k, h) # alist_del k (lru_list c)\<rparr>))"

definition lru_set :: "time \<Rightarrow> 'k \<Rightarrow> 'v \<Rightarrow> ('k, 'v) lru \<Rightarrow> ('k, 'v) lru" where
  "lru_set now k v c =
     lru_trim (c\<lparr>lru_list := (k, \<lparr>hit_value = v, hit_now = now\<rparr>) # alist_del k (lru_list c)\<rparr>)"

subsection \<open>Abstraction and invariant\<close>

text \<open>
  What the cache promises at time \<open>now\<close>: the value of each key whose entry is
  present and fresh. Expired entries that are still physically present are absent here.
\<close>

definition lru_view :: "time \<Rightarrow> ('k, 'v) lru \<Rightarrow> 'k \<Rightarrow> 'v option" where
  "lru_view now c k =
     (case map_of (lru_list c) k of
        None \<Rightarrow> None
      | Some h \<Rightarrow> if is_stale c now h then None else Some (hit_value h))"

definition lru_inv :: "('k, 'v) lru \<Rightarrow> bool" where
  "lru_inv c \<longleftrightarrow> distinct (map fst (lru_list c)) \<and> length (lru_list c) \<le> lru_max c"

definition lru_keys :: "('k, 'v) lru \<Rightarrow> 'k set" where
  "lru_keys c = fst ` set (lru_list c)"

subsection \<open>The trim loop\<close>

lemma take_butlast_long: "m < length xs \<Longrightarrow> take m (butlast xs) = take m xs"
  by (cases xs rule: rev_cases) auto

lemma lru_trim_take: "lru_trim c = c\<lparr>lru_list := take (lru_max c) (lru_list c)\<rparr>"
proof (induction c rule: lru_trim.induct)
  case (1 c)
  show ?case
  proof (cases "lru_max c < length (lru_list c)")
    case True
    with "1.IH" show ?thesis
      by (simp add: lru_trim.simps [of c] take_butlast_long)
  next
    case False
    then show ?thesis by (simp add: lru_trim.simps [of c])
  qed
qed

lemma lru_set_list:
  "lru_list (lru_set now k v c) =
     take (lru_max c) ((k, \<lparr>hit_value = v, hit_now = now\<rparr>) # alist_del k (lru_list c))"
  by (simp add: lru_set_def lru_trim_take)

lemma lru_set_fields [simp]:
  "lru_max (lru_set now k v c) = lru_max c"
  "lru_max_age (lru_set now k v c) = lru_max_age c"
  by (simp_all add: lru_set_def lru_trim_take)

lemma lru_get_fields [simp]:
  "lru_max (snd (lru_get now k c)) = lru_max c"
  "lru_max_age (snd (lru_get now k c)) = lru_max_age c"
  by (simp_all add: lru_get_def split: option.splits)

lemma is_stale_mono:
  "is_stale c now h \<Longrightarrow> now \<le> now' \<Longrightarrow> is_stale c now' h"
  by (simp add: is_stale_def)

lemma is_stale_cong: "lru_max_age c' = lru_max_age c \<Longrightarrow> is_stale c' = is_stale c"
  by (simp add: is_stale_def fun_eq_iff)

lemma is_stale_updates [simp]:
  "is_stale (c\<lparr>lru_list := xs\<rparr>) t h = is_stale c t h"
  "is_stale (lru_set now k v c) t h = is_stale c t h"
  "is_stale (snd (lru_get now k c)) t h = is_stale c t h"
  by (simp_all add: is_stale_def)

subsection \<open>Lookup\<close>

lemma lru_get_view: "fst (lru_get now k c) = lru_view now c k"
  by (simp add: lru_get_def lru_view_def split: option.splits)

lemma lru_view_cong:
  "map_of (lru_list c') = map_of (lru_list c) \<Longrightarrow> lru_max_age c' = lru_max_age c \<Longrightarrow>
   lru_view t c' = lru_view t c"
  by (simp add: lru_view_def is_stale_def fun_eq_iff split: option.splits)

lemma lru_view_notin: "k \<notin> lru_keys c \<Longrightarrow> lru_view t c k = None"
  by (simp add: lru_keys_def lru_view_def map_of_eq_None_iff [symmetric])

lemma map_of_move_front:
  "map_of xs k = Some h \<Longrightarrow> (map_of (alist_del k xs))(k \<mapsto> h) = map_of xs"
  by (auto simp: fun_eq_iff alist_simps)

text \<open>
  A lookup changes the physical list (recency, lazy removal) but no answer the cache
  gives at the same or a later time.
\<close>

lemma lru_get_view_later:
  assumes "now \<le> now'"
  shows "lru_view now' (snd (lru_get now k c)) = lru_view now' c"
proof (cases "map_of (lru_list c) k")
  case None
  then show ?thesis by (simp add: lru_get_def)
next
  case (Some h)
  show ?thesis
  proof (cases "is_stale c now h")
    case True
    from this assms have "is_stale c now' h" by (rule is_stale_mono)
    with Some True show ?thesis
      by (auto simp: lru_get_def lru_view_def fun_eq_iff alist_simps split: option.splits)
  next
    case False
    with Some have "map_of (lru_list (snd (lru_get now k c))) = map_of (lru_list c)"
      by (simp add: lru_get_def map_of_move_front)
    then show ?thesis by (rule lru_view_cong) simp
  qed
qed

lemma lru_get_hit_front:
  "fst (lru_get now k c) = Some v \<Longrightarrow>
     \<exists>h. map_of (lru_list c) k = Some h \<and> hit_value h = v \<and>
         lru_list (snd (lru_get now k c)) = (k, h) # alist_del k (lru_list c)"
  by (auto simp: lru_get_def split: option.splits if_splits)

lemma lru_get_hit_fresh:
  "fst (lru_get now k c) = Some v \<Longrightarrow>
     \<exists>h. map_of (lru_list c) k = Some h \<and> hit_value h = v \<and> \<not> is_stale c now h"
  by (auto simp: lru_get_def split: option.splits if_splits)

lemma lru_get_miss_keys:
  "fst (lru_get now k c) = None \<Longrightarrow> lru_keys (snd (lru_get now k c)) = lru_keys c - {k}"
  by (auto simp: lru_get_def lru_keys_def alist_simps map_of_eq_None_iff
           split: option.splits if_splits dest: map_of_SomeD intro: rev_image_eqI)

subsection \<open>Store\<close>

lemma lru_set_view_same:
  "lru_view now' (lru_set now k v c) k =
     (if lru_max c = 0 \<or> lru_max_age c \<le> now' - now then None else Some v)"
  by (cases "lru_max c") (simp_all add: lru_view_def lru_set_list is_stale_def)

lemma lru_set_view_other:
  "k' \<noteq> k \<Longrightarrow>
   lru_view now' (lru_set now k v c) k' =
     (if k' \<in> fst ` set (take (lru_max c - 1) (alist_del k (lru_list c)))
      then lru_view now' c k' else None)"
  by (cases "lru_max c")
     (simp_all add: lru_view_def lru_set_list map_of_take_in map_of_take_notin alist_simps
        split: option.splits)

text \<open>Below capacity, a store changes the answer for its own key only.\<close>

lemma lru_set_view_room:
  assumes "length (lru_list c) < lru_max c" and "k' \<noteq> k"
  shows "lru_view now' (lru_set now k v c) k' = lru_view now' c k'"
proof -
  have "length (alist_del k (lru_list c)) \<le> lru_max c - 1"
    using assms(1) length_alist_del_le [of k "lru_list c"] by arith
  then have "take (lru_max c - 1) (alist_del k (lru_list c)) = alist_del k (lru_list c)"
    by simp
  with assms(2) have "lru_view now' (lru_set now k v c) k' =
      (if k' \<in> lru_keys c then lru_view now' c k' else None)"
    by (simp add: lru_set_view_other alist_simps lru_keys_def)
  then show ?thesis by (simp add: lru_view_notin)
qed

subsection \<open>Invariant\<close>

lemma lru_inv_new: "lru_inv (lru_new mx age)"
  by (simp add: lru_inv_def lru_new_def)

lemma lru_inv_set: "lru_inv c \<Longrightarrow> lru_inv (lru_set now k v c)"
  by (auto simp: lru_inv_def lru_set_list take_map [symmetric] alist_simps)

lemma lru_inv_get: "lru_inv c \<Longrightarrow> lru_inv (snd (lru_get now k c))"
proof -
  assume inv: "lru_inv c"
  show ?thesis
  proof (cases "map_of (lru_list c) k")
    case None
    with inv show ?thesis by (simp add: lru_get_def)
  next
    case (Some h)
    then have "k \<in> fst ` set (lru_list c)"
      by (metis map_of_eq_None_iff option.distinct(1))
    with inv have "Suc (length (alist_del k (lru_list c))) = length (lru_list c)"
      by (simp add: lru_inv_def length_alist_del_in)
    with inv Some show ?thesis
      using length_alist_del_le [of k "lru_list c"]
      by (auto simp: lru_get_def lru_inv_def alist_simps)
  qed
qed

subsection \<open>Eviction\<close>

text \<open>
  Storing a new key into a full cache evicts exactly the least recently used entry,
  the last of the list.
\<close>

lemma lru_set_full_new:
  assumes "length (lru_list c) = lru_max c" and "lru_list c \<noteq> []"
    and "k \<notin> lru_keys c"
  shows "lru_list (lru_set now k v c) = (k, \<lparr>hit_value = v, hit_now = now\<rparr>) # butlast (lru_list c)"
proof -
  from assms(3) have "alist_del k (lru_list c) = lru_list c"
    by (simp add: lru_keys_def alist_del_notin)
  with assms(1,2) show ?thesis
    by (cases "lru_max c") (simp_all add: lru_set_list butlast_conv_take)
qed

lemma lru_set_full_view:
  assumes "lru_inv c" and "length (lru_list c) = lru_max c" and "lru_list c \<noteq> []"
    and "k \<notin> lru_keys c" and "k' \<noteq> k"
  shows "lru_view now' (lru_set now k v c) k' =
           (if k' = fst (last (lru_list c)) then None else lru_view now' c k')"
  using assms
  by (simp add: lru_view_def lru_set_full_new map_of_butlast_last lru_inv_def
      split: option.splits)

subsection \<open>Stores that evict nothing\<close>

text \<open>
  A store evicts nothing when the entries other than its own key fit below the
  capacity: the cache is not full, or the key is already present.
\<close>

definition lru_no_evict :: "'k \<Rightarrow> ('k, 'v) lru \<Rightarrow> bool" where
  "lru_no_evict k c \<longleftrightarrow> length (alist_del k (lru_list c)) < lru_max c"

lemma lru_no_evictI:
  assumes "lru_inv c" and "length (lru_list c) < lru_max c \<or> k \<in> lru_keys c"
  shows "lru_no_evict k c"
proof (cases "k \<in> lru_keys c")
  case True
  with assms(1) have "Suc (length (alist_del k (lru_list c))) = length (lru_list c)"
    by (simp add: lru_inv_def lru_keys_def length_alist_del_in)
  with assms(1) show ?thesis by (simp add: lru_no_evict_def lru_inv_def)
next
  case False
  with assms(2) show ?thesis
    by (simp add: lru_no_evict_def lru_keys_def alist_del_notin)
qed

lemma lru_set_map_of_no_evict:
  "lru_no_evict k c \<Longrightarrow>
   map_of (lru_list (lru_set now k v c)) = (map_of (lru_list c))(k \<mapsto> \<lparr>hit_value = v, hit_now = now\<rparr>)"
  by (auto simp: lru_no_evict_def lru_set_list fun_eq_iff alist_simps)

lemma lru_set_entries:
  "set (lru_list (lru_set now k v c)) \<subseteq> insert (k, \<lparr>hit_value = v, hit_now = now\<rparr>) (set (lru_list c))"
  using set_take_subset [of "lru_max c" "(k, \<lparr>hit_value = v, hit_now = now\<rparr>) # alist_del k (lru_list c)"]
  by (auto simp: lru_set_list alist_del_def)

lemma lru_get_entries: "set (lru_list (snd (lru_get now k c))) \<subseteq> set (lru_list c)"
  by (auto simp: lru_get_def alist_del_def split: option.splits dest: map_of_SomeD)

lemma lru_get_keys: "fst (lru_get now k c) \<noteq> None \<Longrightarrow> lru_keys (snd (lru_get now k c)) = lru_keys c"
  by (auto simp: lru_get_def lru_keys_def alist_simps split: option.splits if_splits
           dest: map_of_SomeD intro: rev_image_eqI)

lemma lru_get_length:
  "lru_inv c \<Longrightarrow> fst (lru_get now k c) \<noteq> None \<Longrightarrow> length (lru_list (snd (lru_get now k c))) = length (lru_list c)"
proof -
  assume inv: "lru_inv c" and hit: "fst (lru_get now k c) \<noteq> None"
  then obtain h where h: "map_of (lru_list c) k = Some h" "\<not> is_stale c now h"
    by (auto simp: lru_get_def split: option.splits if_splits)
  then have "k \<in> fst ` set (lru_list c)"
    by (metis map_of_eq_None_iff option.distinct(1))
  with inv have "Suc (length (alist_del k (lru_list c))) = length (lru_list c)"
    by (simp add: lru_inv_def length_alist_del_in)
  with h show ?thesis by (simp add: lru_get_def)
qed

lemma lru_keys_set: "lru_keys (lru_set now k v c) \<subseteq> insert k (lru_keys c)"
proof -
  have "fst ` set (lru_list (lru_set now k v c)) \<subseteq>
        fst ` insert (k, \<lparr>hit_value = v, hit_now = now\<rparr>) (set (lru_list c))"
    by (rule image_mono [OF lru_set_entries])
  then show ?thesis by (simp add: lru_keys_def)
qed

lemma lru_keys_get: "lru_keys (snd (lru_get now k c)) \<subseteq> lru_keys c"
  unfolding lru_keys_def by (rule image_mono [OF lru_get_entries])

lemma lru_get_length_le: "length (lru_list (snd (lru_get now k c))) \<le> length (lru_list c)"
proof (cases "map_of (lru_list c) k")
  case None
  then show ?thesis by (simp add: lru_get_def)
next
  case (Some x)
  then have "(k, x) \<in> set (lru_list c)" by (rule map_of_SomeD)
  then have "length (alist_del k (lru_list c)) < length (lru_list c)"
    unfolding alist_del_def by (rule length_filter_less) simp
  with Some show ?thesis by (simp add: lru_get_def)
qed


end
