(* ===== verification/Ref_Cache.thy ===== *)
theory Ref_Cache
  imports LRU_Cache
begin

text \<open>
  The reference cache of \<^verbatim>\<open>src/index.js\<close> (lines 33--55): the process-wide
  \<^verbatim>\<open>ref_cache\<close> instance, the key built by \<^verbatim>\<open>ref_cache_getkey\<close>, and the
  guarded write and read \<^verbatim>\<open>ref_cache_enter\<close> and \<^verbatim>\<open>ref_cache_read\<close>. The
  cache is passed explicitly and returned updated; a read returns the new cache too,
  since \<^verbatim>\<open>get\<close> moves a hit to the front and drops an expired entry. The
  abstract Cache Store of the specification (a map from the four-field resolution key
  to a commit id and its insertion time) is stated here as well, with the refinement
  lemmas relating the two. The last argument \<^verbatim>\<open>head\<close> of the write and the
  read is the raw \<^verbatim>\<open>req.query.ref\<close>, a JavaScript value: its truthiness is tested
  as it is, and the string conversion that \<^verbatim>\<open>+\<close> applies to it inside
  \<^verbatim>\<open>ref_cache_getkey\<close> is written as \<open>js_str head\<close> where the key is built.
\<close>

type_synonym ref_cache = "(string, string) lru"

definition ref_cache_init :: ref_cache where
  "ref_cache_init = lru_new 5000 (1000 * 5)"

definition ref_cache_getkey :: "string \<Rightarrow> string \<Rightarrow> string \<Rightarrow> string \<Rightarrow> string" where
  "ref_cache_getkey service user repo head = service @ ''/'' @ user @ ''/'' @ repo @ ''/'' @ head"

definition ref_cache_enter ::
  "time \<Rightarrow> string \<Rightarrow> string \<Rightarrow> string \<Rightarrow> jsval \<Rightarrow> string \<Rightarrow> ref_cache \<Rightarrow> ref_cache" where
  "ref_cache_enter now service user repo head ref c =
     (if js_truthy service \<and> js_truthy user \<and> js_truthy repo \<and> jsv_truthy head \<and> js_truthy ref
      then lru_set now (ref_cache_getkey service user repo (js_str head)) ref c
      else c)"

definition ref_cache_read ::
  "time \<Rightarrow> string \<Rightarrow> string \<Rightarrow> string \<Rightarrow> jsval \<Rightarrow> ref_cache \<Rightarrow> string option \<times> ref_cache" where
  "ref_cache_read now service user repo head c =
     (if js_truthy service \<and> js_truthy user \<and> js_truthy repo \<and> jsv_truthy head
      then (let (r, c') = lru_get now (ref_cache_getkey service user repo (js_str head)) c
            in (if js_truthy_opt r then r else None, c'))
      else (None, c))"

subsection \<open>The Cache Store of the specification\<close>

type_synonym res_key = "string \<times> string \<times> string \<times> string"

record res_entry =
  commit_id :: string
  inserted_at :: time

type_synonym store = "res_key \<rightharpoonup> res_entry"

fun key_complete :: "res_key \<Rightarrow> bool" where
  "key_complete (s, u, r, h) \<longleftrightarrow> js_truthy s \<and> js_truthy u \<and> js_truthy r \<and> js_truthy h"

fun slash_free :: "res_key \<Rightarrow> bool" where
  "slash_free (s, u, r, h) \<longleftrightarrow> CHR ''/'' \<notin> set s \<and> CHR ''/'' \<notin> set u \<and> CHR ''/'' \<notin> set r"

definition store_get :: "nat \<Rightarrow> time \<Rightarrow> res_key \<Rightarrow> store \<Rightarrow> string option" where
  "store_get ttl now k m =
     (if \<not> key_complete k then None
      else case m k of
        None \<Rightarrow> None
      | Some e \<Rightarrow> if ttl \<le> now - inserted_at e then None else Some (commit_id e))"

definition store_put :: "time \<Rightarrow> res_key \<Rightarrow> string \<Rightarrow> store \<Rightarrow> store" where
  "store_put now k v m =
     (if key_complete k \<and> js_truthy v then m(k \<mapsto> \<lparr>commit_id = v, inserted_at = now\<rparr>) else m)"

fun ref_cache_abs :: "ref_cache \<Rightarrow> store" where
  "ref_cache_abs c (s, u, r, h) =
     (if key_complete (s, u, r, h)
      then map_option (\<lambda>x. \<lparr>commit_id = hit_value x, inserted_at = hit_now x\<rparr>)
             (map_of (lru_list c) (ref_cache_getkey s u r h))
      else None)"

definition ref_cache_inv :: "ref_cache \<Rightarrow> bool" where
  "ref_cache_inv c \<longleftrightarrow> lru_inv c \<and> (\<forall>e \<in> set (lru_list c). js_truthy (hit_value (snd e)))"

text \<open>
  The inverse of \<open>ref_cache_getkey\<close> on keys whose first three fields contain no
  slash: split at the first three slashes.
\<close>

fun split_slash :: "string \<Rightarrow> (string \<times> string) option" where
  "split_slash [] = None"
| "split_slash (x # xs) =
     (if x = CHR ''/'' then Some ([], xs)
      else map_option (\<lambda>(a, b). (x # a, b)) (split_slash xs))"

definition ref_cache_parsekey :: "string \<Rightarrow> res_key option" where
  "ref_cache_parsekey k =
     (case split_slash k of
        None \<Rightarrow> None
      | Some (s, k1) \<Rightarrow>
          (case split_slash k1 of
             None \<Rightarrow> None
           | Some (u, k2) \<Rightarrow>
               (case split_slash k2 of
                  None \<Rightarrow> None
                | Some (r, h) \<Rightarrow> Some (s, u, r, h))))"

subsection \<open>Keys\<close>

lemma ref_cache_init_fields [simp]:
  "lru_max ref_cache_init = 5000" "lru_max_age ref_cache_init = 5000" "lru_list ref_cache_init = []"
  by (simp_all add: ref_cache_init_def lru_new_def)

lemma split_slash_append:
  "CHR ''/'' \<notin> set a \<Longrightarrow> split_slash (a @ CHR ''/'' # b) = Some (a, b)"
  by (induction a) auto

lemma ref_cache_getkey_Cons:
  "ref_cache_getkey s u r h = s @ CHR ''/'' # u @ CHR ''/'' # r @ CHR ''/'' # h"
  by (simp add: ref_cache_getkey_def)

lemma ref_cache_getkey_eq:
  assumes "slash_free (s, u, r, h)" and "slash_free (s', u', r', h')"
  shows "ref_cache_getkey s u r h = ref_cache_getkey s' u' r' h' \<longleftrightarrow> (s, u, r, h) = (s', u', r', h')"
  using assms by (simp add: ref_cache_getkey_Cons append_sep_inject)

lemma ref_cache_read_eq:
  "ref_cache_read now s u r h c =
     (if js_truthy s \<and> js_truthy u \<and> js_truthy r \<and> jsv_truthy h
      then (if js_truthy_opt (fst (lru_get now (ref_cache_getkey s u r (js_str h)) c))
            then fst (lru_get now (ref_cache_getkey s u r (js_str h)) c) else None,
            snd (lru_get now (ref_cache_getkey s u r (js_str h)) c))
      else (None, c))"
  by (simp add: ref_cache_read_def split_def)

lemma ref_cache_read_Some:
  "fst (ref_cache_read now s u r h c) = Some x \<Longrightarrow>
   (js_truthy s \<and> js_truthy u \<and> js_truthy r \<and> jsv_truthy h) \<and> js_truthy x \<and>
   fst (lru_get now (ref_cache_getkey s u r (js_str h)) c) = Some x \<and>
   snd (ref_cache_read now s u r h c) = snd (lru_get now (ref_cache_getkey s u r (js_str h)) c)"
  by (auto simp: ref_cache_read_eq split: if_splits)

lemma ref_cache_read_view:
  "js_truthy s \<and> js_truthy u \<and> js_truthy r \<and> jsv_truthy h \<Longrightarrow>
   fst (ref_cache_read now s u r h c) =
     (case lru_view now c (ref_cache_getkey s u r (js_str h)) of
        Some x \<Rightarrow> if js_truthy x then Some x else None
      | None \<Rightarrow> None)"
  using lru_get_view [of now "ref_cache_getkey s u r (js_str h)" c]
  by (auto simp: ref_cache_read_eq js_truthy_opt_iff js_truthy_def split: option.splits)

lemma ref_cache_read_enter:
  assumes "js_truthy s \<and> js_truthy u \<and> js_truthy r \<and> jsv_truthy h \<and> js_truthy v"
  shows "fst (ref_cache_read now' s u r h (ref_cache_enter now s u r h v c)) =
           (if lru_max c = 0 \<or> lru_max_age c \<le> now' - now then None else Some v)"
  using assms by (simp add: ref_cache_read_view ref_cache_enter_def lru_set_view_same)

text \<open>A read that misses leaves a cache in which the same read misses again, at any
  time: the entry was absent, was stale and has been removed, or holds a falsy value.\<close>

lemma ref_cache_read_miss_again:
  assumes "fst (ref_cache_read now s u r h c) = None"
  shows "fst (ref_cache_read now' s u r h (snd (ref_cache_read now s u r h c))) = None"
  using assms
  by (auto simp: ref_cache_read_eq lru_get_def alist_simps split: option.splits if_splits)

subsection \<open>Invariant\<close>

lemma ref_cache_inv_init: "ref_cache_inv ref_cache_init"
  by (simp add: ref_cache_inv_def ref_cache_init_def lru_new_def lru_inv_def)

lemma ref_cache_inv_enter: "ref_cache_inv c \<Longrightarrow> ref_cache_inv (ref_cache_enter now s u r h v c)"
  using lru_set_entries [of now "ref_cache_getkey s u r (js_str h)" v c]
  by (auto simp: ref_cache_inv_def ref_cache_enter_def lru_inv_set)

lemma ref_cache_inv_read: "ref_cache_inv c \<Longrightarrow> ref_cache_inv (snd (ref_cache_read now s u r h c))"
  using lru_get_entries [of now "ref_cache_getkey s u r (js_str h)" c]
  by (auto simp: ref_cache_inv_def ref_cache_read_eq lru_inv_get)

lemma ref_cache_read_fields [simp]:
  "lru_max (snd (ref_cache_read now s u r h c)) = lru_max c"
  "lru_max_age (snd (ref_cache_read now s u r h c)) = lru_max_age c"
  using lru_get_fields [of now "ref_cache_getkey s u r (js_str h)" c]
  by (auto simp: ref_cache_read_eq)

lemma ref_cache_enter_fields [simp]:
  "lru_max (ref_cache_enter now s u r h v c) = lru_max c"
  "lru_max_age (ref_cache_enter now s u r h v c) = lru_max_age c"
  by (simp_all add: ref_cache_enter_def)

lemmas ref_cache_inv_ops = ref_cache_inv_init ref_cache_inv_enter ref_cache_inv_read

subsection \<open>Refinement of the Cache Store\<close>

lemma ref_cache_abs_lookup:
  "key_complete (s, u, r, h) \<Longrightarrow> map_of (lru_list c) (ref_cache_getkey s u r h) = Some x \<Longrightarrow>
   ref_cache_abs c (s, u, r, h) = Some \<lparr>commit_id = hit_value x, inserted_at = hit_now x\<rparr>"
  by simp

lemma ref_cache_inv_value:
  "ref_cache_inv c \<Longrightarrow> map_of (lru_list c) k = Some x \<Longrightarrow> js_truthy (hit_value x)"
  using map_of_SomeD [of "lru_list c" k x] by (force simp: ref_cache_inv_def)

lemma ref_cache_read_store:
  assumes "ref_cache_inv c"
  shows "fst (ref_cache_read now s u r (JStr h) c) =
           store_get (lru_max_age c) now (s, u, r, h) (ref_cache_abs c)"
proof (cases "key_complete (s, u, r, h)")
  case True
  then have g: "js_truthy s \<and> js_truthy u \<and> js_truthy r \<and> jsv_truthy (JStr h)" by simp
  show ?thesis
  proof (cases "map_of (lru_list c) (ref_cache_getkey s u r h)")
    case None
    with True show ?thesis
      by (simp add: ref_cache_read_view [OF g] lru_view_def store_get_def del: key_complete.simps)
  next
    case (Some x)
    with assms have "js_truthy (hit_value x)" by (rule ref_cache_inv_value)
    with True Some show ?thesis
      by (simp add: ref_cache_read_view [OF g] lru_view_def store_get_def is_stale_def
               del: key_complete.simps)
  qed
next
  case False
  then show ?thesis by (auto simp: ref_cache_read_eq store_get_def)
qed

text \<open>
  On keys whose owner, repository and service contain no slash, a write that evicts
  nothing is the abstract \<open>put\<close>: the entry for the written key is replaced with the
  new commit id stamped with the current time, every other key keeps its entry, and a
  write with an empty field changes nothing.
\<close>

lemma ref_cache_abs_enter:
  assumes "slash_free (s, u, r, h)" and "slash_free k"
    and "lru_no_evict (ref_cache_getkey s u r h) c"
  shows "ref_cache_abs (ref_cache_enter now s u r (JStr h) v c) k =
           store_put now (s, u, r, h) v (ref_cache_abs c) k"
proof -
  obtain s' u' r' h' where k: "k = (s', u', r', h')" by (metis prod_cases4)
  show ?thesis
  proof (cases "js_truthy s \<and> js_truthy u \<and> js_truthy r \<and> js_truthy h \<and> js_truthy v")
    case True
    with assms k show ?thesis
      by (auto simp: ref_cache_enter_def store_put_def lru_set_map_of_no_evict
                     ref_cache_getkey_eq)
  next
    case False
    then show ?thesis by (auto simp: ref_cache_enter_def store_put_def)
  qed
qed

subsection \<open>Properties of the cache as the resolver uses it\<close>

text \<open>
  C3: an entry written at time \<open>now\<close> into the cache configured with
  \<open>maxAge = 1000 * 5\<close> is a miss for every read at \<open>now + 5000\<close> or later.
\<close>

theorem ref_cache_ttl_expiry:
  assumes "lru_max_age c = 1000 * 5" and "now + 1000 * 5 \<le> now'"
    and "js_truthy s \<and> js_truthy u \<and> js_truthy r \<and> jsv_truthy h \<and> js_truthy v"
  shows "fst (ref_cache_read now' s u r h (ref_cache_enter now s u r h v c)) = None"
proof -
  from assms(2) have "1000 * 5 \<le> now' - now" by arith
  with assms(1,3) show ?thesis by (simp add: ref_cache_read_enter)
qed

theorem ref_cache_ttl_expiry_witness:
  "lru_max_age ref_cache_init = 1000 * 5 \<and> (10 :: nat) + 1000 * 5 \<le> 5010 \<and>
   js_truthy ''gh'' \<and> js_truthy ''octo'' \<and> js_truthy ''hello-world'' \<and> jsv_truthy (JStr ''main'') \<and>
   js_truthy ''abc123'' \<and>
   fst (ref_cache_read 5010 ''gh'' ''octo'' ''hello-world'' (JStr ''main'')
         (ref_cache_enter 10 ''gh'' ''octo'' ''hello-world'' (JStr ''main'') ''abc123'' ref_cache_init)) = None"
proof -
  have h: "lru_max_age ref_cache_init = 1000 * 5"
    by (simp add: ref_cache_init_def lru_new_def)
  show ?thesis
    using ref_cache_ttl_expiry [OF h, of 10 5010 "''gh''" "''octo''" "''hello-world''" "JStr ''main''"
        "''abc123''"] h
    by simp
qed

text \<open>
  C4: writing a new key into a full cache evicts exactly the least recently used
  entry (the last of the recency list); every other key keeps its answer.
\<close>

theorem ref_cache_enter_evicts_lru:
  assumes "lru_inv c" and "length (lru_list c) = lru_max c" and "lru_list c \<noteq> []"
    and "js_truthy s \<and> js_truthy u \<and> js_truthy r \<and> jsv_truthy h \<and> js_truthy v"
    and "ref_cache_getkey s u r (js_str h) \<notin> lru_keys c"
  shows "lru_view now' (ref_cache_enter now s u r h v c) (fst (last (lru_list c))) = None \<and>
         (\<forall>k. k \<noteq> fst (last (lru_list c)) \<and> k \<noteq> ref_cache_getkey s u r (js_str h) \<longrightarrow>
              lru_view now' (ref_cache_enter now s u r h v c) k = lru_view now' c k)"
proof -
  have "fst (last (lru_list c)) \<in> lru_keys c"
    using assms(3) by (simp add: lru_keys_def)
  with assms(5) have "fst (last (lru_list c)) \<noteq> ref_cache_getkey s u r (js_str h)" by auto
  with assms show ?thesis
    by (simp add: ref_cache_enter_def lru_set_full_view)
qed

theorem ref_cache_enter_evicts_lru_witness:
  "lru_inv (\<lparr>lru_max = 1, lru_max_age = 5000,
             lru_list = [(''gh/a/b/c'', \<lparr>hit_value = ''x'', hit_now = 0\<rparr>)]\<rparr> :: ref_cache) \<and>
   lru_view 1 (ref_cache_enter 0 ''gh'' ''a'' ''b'' (JStr ''d'') ''y''
       \<lparr>lru_max = 1, lru_max_age = 5000,
        lru_list = [(''gh/a/b/c'', \<lparr>hit_value = ''x'', hit_now = 0\<rparr>)]\<rparr>) ''gh/a/b/c'' = None"
proof -
  let ?c = "\<lparr>lru_max = 1, lru_max_age = 5000,
             lru_list = [(''gh/a/b/c'', \<lparr>hit_value = ''x'', hit_now = 0\<rparr>)]\<rparr> :: ref_cache"
  have h1: "lru_inv ?c" by (simp add: lru_inv_def)
  have h2: "length (lru_list ?c) = lru_max ?c" by simp
  have h3: "lru_list ?c \<noteq> []" by simp
  have h4: "js_truthy ''gh'' \<and> js_truthy ''a'' \<and> js_truthy ''b'' \<and> jsv_truthy (JStr ''d'') \<and> js_truthy ''y''"
    by simp
  have h5: "ref_cache_getkey ''gh'' ''a'' ''b'' (js_str (JStr ''d'')) \<notin> lru_keys ?c"
    by (simp add: ref_cache_getkey_def lru_keys_def)
  show ?thesis using h1 ref_cache_enter_evicts_lru [OF h1 h2 h3 h4 h5, of 1 0] by simp
qed

text \<open>
  C5: a key that was just read (a hit) is the most recently used one, so the next
  write of a new key into the full cache does not evict it: the key still hits.
\<close>

theorem ref_cache_read_protects:
  assumes inv: "lru_inv c" and full: "length (lru_list c) = lru_max c" and two: "2 \<le> lru_max c"
    and hit: "fst (ref_cache_read now s u r h c) = Some x"
    and ok: "js_truthy s' \<and> js_truthy u' \<and> js_truthy r' \<and> jsv_truthy h' \<and> js_truthy v"
    and new: "ref_cache_getkey s' u' r' (js_str h') \<notin> lru_keys c"
  shows "fst (ref_cache_read now s u r h
            (ref_cache_enter now s' u' r' h' v (snd (ref_cache_read now s u r h c)))) = Some x"
proof -
  let ?k = "ref_cache_getkey s u r (js_str h)" and ?k' = "ref_cache_getkey s' u' r' (js_str h')"
  let ?c1 = "snd (lru_get now ?k c)"
  from ref_cache_read_Some [OF hit] have cpl: "js_truthy s \<and> js_truthy u \<and> js_truthy r \<and> jsv_truthy h" and tx: "js_truthy x"
    and get: "fst (lru_get now ?k c) = Some x"
    and c1: "snd (ref_cache_read now s u r h c) = ?c1"
    by auto
  from lru_get_hit_front [OF get] obtain hh where hh: "map_of (lru_list c) ?k = Some hh"
    and l1: "lru_list ?c1 = (?k, hh) # alist_del ?k (lru_list c)"
    by blast
  have inv1: "lru_inv ?c1" using inv by (rule lru_inv_get)
  have len1: "length (lru_list ?c1) = lru_max ?c1"
    using lru_get_length [OF inv] get full by simp
  have kin: "?k \<in> fst ` set (lru_list c)"
    using hh by (metis map_of_eq_None_iff option.distinct(1))
  have keys1: "lru_keys ?c1 = lru_keys c" using lru_get_keys [of now ?k c] get by simp
  with new have new1: "?k' \<notin> lru_keys ?c1" by simp
  have neq: "?k \<noteq> ?k'"
  proof
    assume "?k = ?k'"
    with kin new show False by (simp add: lru_keys_def)
  qed
  have "Suc (length (alist_del ?k (lru_list c))) = length (lru_list c)"
    using inv kin by (simp add: lru_inv_def length_alist_del_in)
  with full two have ne: "alist_del ?k (lru_list c) \<noteq> []" by auto
  then have "fst (last (alist_del ?k (lru_list c))) \<in> fst ` set (alist_del ?k (lru_list c))"
    by simp
  with ne l1 have last1: "?k \<noteq> fst (last (lru_list ?c1))" by (auto simp: alist_simps)
  have view1: "lru_view now ?c1 ?k = Some x"
    using lru_get_view_later [of now now ?k c] lru_get_view [of now ?k c] get by simp
  have "lru_view now (lru_set now ?k' v ?c1) ?k = Some x"
    using lru_set_full_view [OF inv1 len1 _ new1 neq] l1 last1 view1 by simp
  then show ?thesis
    using c1 cpl tx ok by (simp add: ref_cache_read_view ref_cache_enter_def)
qed

theorem ref_cache_read_protects_witness:
  "fst (ref_cache_read 1 ''gh'' ''a'' ''b'' (JStr ''d'')
     (ref_cache_enter 1 ''gh'' ''a'' ''b'' (JStr ''e'') ''z''
       (snd (ref_cache_read 1 ''gh'' ''a'' ''b'' (JStr ''d'')
         \<lparr>lru_max = 2, lru_max_age = 5000,
          lru_list = [(''gh/a/b/c'', \<lparr>hit_value = ''x'', hit_now = 0\<rparr>),
                      (''gh/a/b/d'', \<lparr>hit_value = ''y'', hit_now = 0\<rparr>)]\<rparr>)))) = Some ''y''"
proof -
  let ?c = "\<lparr>lru_max = 2, lru_max_age = 5000,
          lru_list = [(''gh/a/b/c'', \<lparr>hit_value = ''x'', hit_now = 0\<rparr>),
                      (''gh/a/b/d'', \<lparr>hit_value = ''y'', hit_now = 0\<rparr>)]\<rparr> :: ref_cache"
  have h1: "lru_inv ?c" by (simp add: lru_inv_def)
  have h2: "length (lru_list ?c) = lru_max ?c" by simp
  have h3: "2 \<le> lru_max ?c" by simp
  have h4: "fst (ref_cache_read 1 ''gh'' ''a'' ''b'' (JStr ''d'') ?c) = Some ''y''"
    by (simp add: ref_cache_read_eq lru_get_def ref_cache_getkey_def is_stale_def)
  have h5: "js_truthy ''gh'' \<and> js_truthy ''a'' \<and> js_truthy ''b'' \<and> jsv_truthy (JStr ''e'') \<and> js_truthy ''z''"
    by simp
  have h6: "ref_cache_getkey ''gh'' ''a'' ''b'' (js_str (JStr ''e'')) \<notin> lru_keys ?c"
    by (simp add: ref_cache_getkey_def lru_keys_def)
  show ?thesis by (rule ref_cache_read_protects [OF h1 h2 h3 h4 h5 h6])
qed

text \<open>
  C6: \<open>ref_cache_enter\<close> with an empty service, user, repository, ref or commit id
  creates no entry: every later read, of any key, behaves as on the cache before.
\<close>

theorem ref_cache_enter_partial_key:
  assumes "\<not> (js_truthy s \<and> js_truthy u \<and> js_truthy r \<and> jsv_truthy h \<and> js_truthy v)"
  shows "ref_cache_read t s' u' r' h' (ref_cache_enter now s u r h v c) = ref_cache_read t s' u' r' h' c"
  by (simp only: ref_cache_enter_def if_not_P [OF assms])

theorem ref_cache_enter_partial_key_witness:
  "\<not> (js_truthy ''gh'' \<and> js_truthy ''octo'' \<and> js_truthy ''hello-world'' \<and> jsv_truthy (JStr ''main'') \<and> js_truthy []) \<and>
   fst (ref_cache_read 20 ''gh'' ''octo'' ''hello-world'' (JStr ''main'')
     (ref_cache_enter 10 ''gh'' ''octo'' ''hello-world'' (JStr ''main'') [] ref_cache_init)) = None"
proof -
  have h: "\<not> (js_truthy ''gh'' \<and> js_truthy ''octo'' \<and> js_truthy ''hello-world'' \<and> jsv_truthy (JStr ''main'') \<and> js_truthy [])"
    by simp
  show ?thesis
    using h ref_cache_enter_partial_key [OF h, of 20 "''gh''" "''octo''" "''hello-world''" "JStr ''main''" 10
        ref_cache_init]
    by (simp add: ref_cache_read_eq ref_cache_init_def lru_new_def lru_get_def)
qed

text \<open>
  C10: the key is the four fields joined by slashes, so two different requests can
  share one cache entry: repository \<open>hello/world\<close> with ref \<open>main\<close> and repository
  \<open>hello\<close> with ref \<open>world/main\<close> have the same key, and a read of the first is
  answered with the commit id cached for the second.
\<close>

theorem ref_cache_key_collision:
  "(''gh'', ''octo'', ''hello/world'', ''main'') \<noteq> (''gh'', ''octo'', ''hello'', ''world/main'') \<and>
   ref_cache_getkey ''gh'' ''octo'' ''hello/world'' ''main'' =
     ref_cache_getkey ''gh'' ''octo'' ''hello'' ''world/main'' \<and>
   fst (ref_cache_read 1 ''gh'' ''octo'' ''hello/world'' (JStr ''main'')
     (ref_cache_enter 0 ''gh'' ''octo'' ''hello'' (JStr ''world/main'') ''abc123'' ref_cache_init)) = Some ''abc123''"
  by (simp add: ref_cache_read_eq ref_cache_enter_def ref_cache_getkey_def ref_cache_init_def
                lru_new_def lru_set_list lru_get_def is_stale_def alist_del_def)

text \<open>
  C14: when the service, the user and the repository contain no slash, the key
  determines the request: splitting it at its first three slashes gives the four
  fields back.
\<close>

theorem ref_cache_getkey_roundtrip:
  assumes "slash_free (s, u, r, h)"
  shows "ref_cache_parsekey (ref_cache_getkey s u r h) = Some (s, u, r, h)"
  using assms by (simp add: ref_cache_parsekey_def ref_cache_getkey_Cons split_slash_append)

theorem ref_cache_getkey_roundtrip_witness:
  "slash_free (''gh'', ''octo'', ''hello-world'', ''feature/x'') \<and>
   ref_cache_parsekey (ref_cache_getkey ''gh'' ''octo'' ''hello-world'' ''feature/x'') =
     Some (''gh'', ''octo'', ''hello-world'', ''feature/x'')"
proof -
  have h: "slash_free (''gh'', ''octo'', ''hello-world'', ''feature/x'')" by simp
  show ?thesis using h ref_cache_getkey_roundtrip [OF h] by simp
qed

lemma store_get_abs:
  "store_get (lru_max_age c) t k (ref_cache_abs c) =
     (if key_complete k then lru_view t c (ref_cache_getkey (fst k) (fst (snd k)) (fst (snd (snd k))) (snd (snd (snd k))))
      else None)"
  by (cases k rule: prod_cases4)
     (simp add: store_get_def lru_view_def is_stale_def split: option.splits del: key_complete.simps)

lemma store_get_read_later:
  assumes "now \<le> t"
  shows "store_get (lru_max_age c) t k (ref_cache_abs (snd (ref_cache_read now s u r h c))) =
         store_get (lru_max_age c) t k (ref_cache_abs c)"
proof (cases "js_truthy s \<and> js_truthy u \<and> js_truthy r \<and> jsv_truthy h")
  case True
  let ?k = "ref_cache_getkey (fst k) (fst (snd k)) (fst (snd (snd k))) (snd (snd (snd k)))"
  let ?c1 = "snd (lru_get now (ref_cache_getkey s u r (js_str h)) c)"
  have c1: "snd (ref_cache_read now s u r h c) = ?c1"
    using True by (simp add: ref_cache_read_eq)
  have "store_get (lru_max_age c) t k (ref_cache_abs ?c1) =
        store_get (lru_max_age ?c1) t k (ref_cache_abs ?c1)" by simp
  also have "\<dots> = (if key_complete k then lru_view t ?c1 ?k else None)" by (rule store_get_abs)
  also have "\<dots> = (if key_complete k then lru_view t c ?k else None)"
    using lru_get_view_later [OF assms, of "ref_cache_getkey s u r (js_str h)" c] by simp
  also have "\<dots> = store_get (lru_max_age c) t k (ref_cache_abs c)" by (rule store_get_abs [symmetric])
  finally show ?thesis using c1 by simp
next
  case False
  then show ?thesis by (auto simp: ref_cache_read_eq)
qed

lemma store_get_put_cong:
  "store_get ttl t k m1 = store_get ttl t k m2 \<Longrightarrow>
   store_get ttl t k (store_put now k' v m1) = store_get ttl t k (store_put now k' v m2)"
  by (auto simp: store_put_def store_get_def)

text \<open>C12: a read answers what the abstract Cache Store's get answers for the four-field
  key, and leaves every answer of the abstract store at that time or later unchanged
  (moving a hit to the front and dropping an expired entry are invisible).\<close>

theorem ref_cache_read_refines:
  assumes "ref_cache_inv c" and "now \<le> t"
  shows "fst (ref_cache_read now s u r (JStr h) c) = store_get (lru_max_age c) now (s, u, r, h) (ref_cache_abs c) \<and>
         store_get (lru_max_age c) t k (ref_cache_abs (snd (ref_cache_read now s u r (JStr h) c))) =
         store_get (lru_max_age c) t k (ref_cache_abs c)"
  using ref_cache_read_store [OF assms(1)] store_get_read_later [OF assms(2)] by blast

theorem ref_cache_read_refines_witness:
  "fst (ref_cache_read 20 ''gh'' ''octo'' ''hello-world'' (JStr ''main'')
     (ref_cache_enter 10 ''gh'' ''octo'' ''hello-world'' (JStr ''main'') ''abc123'' ref_cache_init)) =
   store_get 5000 20 (''gh'', ''octo'', ''hello-world'', ''main'')
     (ref_cache_abs (ref_cache_enter 10 ''gh'' ''octo'' ''hello-world'' (JStr ''main'') ''abc123'' ref_cache_init))"
proof -
  have inv: "ref_cache_inv (ref_cache_enter 10 ''gh'' ''octo'' ''hello-world'' (JStr ''main'') ''abc123'' ref_cache_init)"
    by (rule ref_cache_inv_enter [OF ref_cache_inv_init])
  have le: "(20::nat) \<le> 30" by simp
  show ?thesis using ref_cache_read_refines [OF inv le] by simp
qed


end
