(* ===== verification/Http.thy ===== *)
theory Http
  imports Prelude
begin

text \<open>
  The common result handlers of \<^verbatim>\<open>src/index.js\<close> (lines 22--31). Each writes one
  HTTP response through Express (\<^verbatim>\<open>res.status(404).json(...)\<close> or
  \<^verbatim>\<open>res.json(...)\<close>, whose status defaults to 200); the model returns that response
  as a value: a status code and the JSON body, either an error message
  (\<^verbatim>\<open>{err: ...}\<close>) or a resolved commit id (\<^verbatim>\<open>{ref: ...}\<close>).
\<close>

datatype json_body = ErrBody string | RefBody string

record http_response =
  status :: nat
  body :: json_body

definition unknown_service :: http_response where
  "unknown_service = \<lparr>status = 404, body = ErrBody ''Unknown service''\<rparr>"

definition unknown_repository :: http_response where
  "unknown_repository = \<lparr>status = 404, body = ErrBody ''Unknown repository/reference''\<rparr>"

definition resolve_ref :: "string \<Rightarrow> http_response" where
  "resolve_ref ref = \<lparr>status = 200, body = RefBody ref\<rparr>"

lemma responses_distinct [simp]:
  "unknown_service \<noteq> unknown_repository"
  "unknown_repository \<noteq> unknown_service"
  "resolve_ref v \<noteq> unknown_service"
  "resolve_ref v \<noteq> unknown_repository"
  "unknown_service \<noteq> resolve_ref v"
  "unknown_repository \<noteq> resolve_ref v"
  by (simp_all add: unknown_service_def unknown_repository_def resolve_ref_def)

lemma resolve_ref_inject [simp]: "resolve_ref v = resolve_ref w \<longleftrightarrow> v = w"
  by (simp add: resolve_ref_def)

lemma response_status [simp]:
  "status unknown_service = 404"
  "status unknown_repository = 404"
  "status (resolve_ref v) = 200"
  by (simp_all add: unknown_service_def unknown_repository_def resolve_ref_def)

end
