(* ===== verification/Github.thy ===== *)
theory Github
  imports Prelude
begin

text \<open>
  The boundary to the GitHub API used by the resolver (\<^verbatim>\<open>src/index.js\<close>, lines
  73--90): the request \<^verbatim>\<open>octokit.gitdata.getReference({owner, repo, ref})\<close> for
  the fully qualified reference \<^verbatim>\<open>heads/<ref>\<close>, and the shape of the callback's
  arguments: an error, or a result whose optional \<^verbatim>\<open>data\<close> holds an optional
  \<^verbatim>\<open>object\<close> with a \<^verbatim>\<open>type\<close> and a \<^verbatim>\<open>sha\<close>. The remote service itself is
  not modelled: the resolver takes its answer as a parameter (an arbitrary function
  from requests to results). The test the callback applies, "data, object and type
  commit", is \<open>commit_object\<close>; the specification's adapter contract
  (\<^verbatim>\<open>Resolved\<close>, \<^verbatim>\<open>RefNotFound\<close>, \<^verbatim>\<open>UpstreamFailure\<close>) is \<open>gh_classify\<close>.
\<close>

datatype git_object = GitObject (obj_type: string) (obj_sha: string)

datatype ref_data = RefData (data_object: "git_object option")

datatype api_result = ApiError | ApiResult (result_data: "ref_data option")

record gh_call =
  call_owner :: string
  call_repo :: string
  call_ref :: string

definition gh_reference :: "jsval \<Rightarrow> string" where
  "gh_reference origref = ''heads/'' @ js_str origref"

definition gh_get_reference :: "string \<Rightarrow> string \<Rightarrow> string \<Rightarrow> gh_call" where
  "gh_get_reference user repo ref = \<lparr>call_owner = user, call_repo = repo, call_ref = ref\<rparr>"

fun commit_object :: "ref_data option \<Rightarrow> git_object option" where
  "commit_object (Some (RefData (Some obj))) = (if obj_type obj = ''commit'' then Some obj else None)"
| "commit_object _ = None"

datatype resolution = Resolved string | RefNotFound | UpstreamFailure

fun gh_classify :: "api_result \<Rightarrow> resolution" where
  "gh_classify ApiError = UpstreamFailure"
| "gh_classify (ApiResult d) =
     (case commit_object d of Some obj \<Rightarrow> Resolved (obj_sha obj) | None \<Rightarrow> RefNotFound)"

lemma commit_object_Some:
  "commit_object d = Some obj \<longleftrightarrow> d = Some (RefData (Some obj)) \<and> obj_type obj = ''commit''"
  by (cases d rule: commit_object.cases) auto

lemma gh_classify_Resolved:
  "gh_classify res = Resolved v \<longleftrightarrow>
     (\<exists>obj. res = ApiResult (Some (RefData (Some obj))) \<and> obj_type obj = ''commit'' \<and> obj_sha obj = v)"
  by (cases res) (auto simp: commit_object_Some split: option.splits)

end
