(* ===== verification/Resolver.thy ===== *)
theory Resolver
  imports Ref_Cache Http Github
begin

text \<open>
  The two path handlers of \<^verbatim>\<open>src/index.js\<close> (lines 58--104). The handler
  \<^verbatim>\<open>resolve.get\<close> runs in two phases separated by the asynchronous GitHub call:
  \<open>resolve_get\<close> is the synchronous part up to \<^verbatim>\<open>octokit.gitdata.getReference\<close>
  (it either answers at once or leaves a pending call), and \<open>resolve_cb\<close> is the
  callback \<^verbatim>\<open>cb\<close>, run later with the API's answer. \<open>resolve_sync\<close> composes the
  two with no other request in between; the interleaving of many requests is the
  subject of theory \<open>Server\<close>. \<^verbatim>\<open>pathderef.get\<close> is \<open>pathderef_get\<close>.
  The request's \<open>req_ref\<close> is \<^verbatim>\<open>req.query.ref\<close> as the JavaScript value it is
  (\<open>jsval\<close>): \<^verbatim>\<open>!req.query.ref\<close> tests its truthiness, and the key and the
  GitHub ref use its string conversion.
\<close>

record resolve_req =
  req_service :: string
  req_user :: string
  req_repo :: string
  req_ref :: "jsval option"

record pending =
  pend_user :: string
  pend_repo :: string
  pend_origref :: jsval
  pend_call :: gh_call

datatype get_outcome = Respond http_response | Await pending

definition resolve_get :: "time \<Rightarrow> resolve_req \<Rightarrow> ref_cache \<Rightarrow> get_outcome \<times> ref_cache" where
  "resolve_get now q c =
     (case req_ref q of
        None \<Rightarrow> (Respond unknown_repository, c)
      | Some origref \<Rightarrow>
          if \<not> jsv_truthy origref then (Respond unknown_repository, c)
          else
            (let (cached, c') = ref_cache_read now (req_service q) (req_user q) (req_repo q) origref c
             in case cached of
                  Some v \<Rightarrow> (Respond (resolve_ref v), c')
                | None \<Rightarrow>
                    if req_service q = ''gh''
                    then (Await \<lparr>pend_user = req_user q, pend_repo = req_repo q, pend_origref = origref,
                                 pend_call = gh_get_reference (req_user q) (req_repo q)
                                               (gh_reference origref)\<rparr>, c')
                    else (Respond unknown_service, c')))"

definition resolve_cb ::
  "time \<Rightarrow> pending \<Rightarrow> api_result \<Rightarrow> ref_cache \<Rightarrow> http_response \<times> ref_cache" where
  "resolve_cb now p res c =
     (case res of
        ApiError \<Rightarrow> (unknown_repository, c)
      | ApiResult d \<Rightarrow>
          (case commit_object d of
             Some obj \<Rightarrow>
               (resolve_ref (obj_sha obj),
                ref_cache_enter now ''gh'' (pend_user p) (pend_repo p) (pend_origref p) (obj_sha obj) c)
           | None \<Rightarrow> (unknown_repository, c)))"

definition resolve_sync ::
  "time \<Rightarrow> time \<Rightarrow> (gh_call \<Rightarrow> api_result) \<Rightarrow> resolve_req \<Rightarrow> ref_cache \<Rightarrow> http_response \<times> ref_cache" where
  "resolve_sync t1 t2 gh q c =
     (case resolve_get t1 q c of
        (Respond resp, c') \<Rightarrow> (resp, c')
      | (Await p, c') \<Rightarrow> resolve_cb t2 p (gh (pend_call p)) c')"

definition pathderef_get :: "string \<Rightarrow> string \<Rightarrow> string \<Rightarrow> jsval option \<Rightarrow> http_response" where
  "pathderef_get service user repo path = unknown_service"

text \<open>Every key the resolver writes starts with the service \<open>gh\<close>.\<close>

definition gh_keys :: "ref_cache \<Rightarrow> bool" where
  "gh_keys c \<longleftrightarrow> (\<forall>k \<in> lru_keys c. \<exists>rest. k = ''gh/'' @ rest)"

definition resolver_inv :: "ref_cache \<Rightarrow> bool" where
  "resolver_inv c \<longleftrightarrow> ref_cache_inv c \<and> gh_keys c"

text \<open>
  A GitHub that knows one reference: the fixture of the examples below. It answers
  the given object for one owner, repository and fully qualified ref, and fails for
  every other request.
\<close>

definition gh_single :: "string \<Rightarrow> string \<Rightarrow> string \<Rightarrow> git_object \<Rightarrow> gh_call \<Rightarrow> api_result" where
  "gh_single owner repo ref obj call =
     (if call_owner call = owner \<and> call_repo call = repo \<and> call_ref call = ref
      then ApiResult (Some (RefData (Some obj))) else ApiError)"

subsection \<open>Unfolding the handler\<close>

lemma resolve_get_eq:
  "resolve_get now q c =
     (if \<not> jsv_truthy_opt (req_ref q) then (Respond unknown_repository, c)
      else
        (let origref = the (req_ref q);
             c' = snd (ref_cache_read now (req_service q) (req_user q) (req_repo q) origref c)
         in case fst (ref_cache_read now (req_service q) (req_user q) (req_repo q) origref c) of
              Some v \<Rightarrow> (Respond (resolve_ref v), c')
            | None \<Rightarrow>
                if req_service q = ''gh''
                then (Await \<lparr>pend_user = req_user q, pend_repo = req_repo q, pend_origref = origref,
                             pend_call = gh_get_reference (req_user q) (req_repo q)
                                           (gh_reference origref)\<rparr>, c')
                else (Respond unknown_service, c')))"
  by (cases "req_ref q") (simp_all add: resolve_get_def split_def Let_def)

lemma resolve_get_Await:
  "resolve_get now q c = (Await p, c') \<Longrightarrow>
     req_service q = ''gh'' \<and> req_ref q = Some (pend_origref p) \<and> jsv_truthy (pend_origref p) \<and>
     pend_user p = req_user q \<and> pend_repo p = req_repo q \<and>
     pend_call p = gh_get_reference (req_user q) (req_repo q) (gh_reference (pend_origref p)) \<and>
     fst (ref_cache_read now ''gh'' (req_user q) (req_repo q) (pend_origref p) c) = None \<and>
     c' = snd (ref_cache_read now ''gh'' (req_user q) (req_repo q) (pend_origref p) c)"
  by (auto simp: resolve_get_eq jsv_truthy_opt_iff Let_def
           split: if_splits option.splits)

lemma resolve_get_Respond_cache:
  "resolve_get now q c = (Respond r, c') \<Longrightarrow>
     c' = c \<or> (\<exists>h. req_ref q = Some h \<and> c' = snd (ref_cache_read now (req_service q) (req_user q) (req_repo q) h c))"
  by (auto simp: resolve_get_eq jsv_truthy_opt_iff Let_def split: if_splits option.splits)

lemma resolve_cb_eq:
  "resolve_cb now p res c =
     (case gh_classify res of
        Resolved v \<Rightarrow> (resolve_ref v, ref_cache_enter now ''gh'' (pend_user p) (pend_repo p) (pend_origref p) v c)
      | _ \<Rightarrow> (unknown_repository, c))"
  by (cases res) (simp_all add: resolve_cb_def split: option.splits)

subsection \<open>Keys of the service \<open>gh\<close>\<close>

lemma gh_keys_getkey_notin:
  assumes "gh_keys c" and "s \<noteq> ''gh''" and "CHR ''/'' \<notin> set s"
  shows "ref_cache_getkey s u r h \<notin> lru_keys c"
proof
  assume "ref_cache_getkey s u r h \<in> lru_keys c"
  with assms(1) obtain rest where "ref_cache_getkey s u r h = ''gh/'' @ rest"
    by (auto simp: gh_keys_def)
  then have "s @ CHR ''/'' # (u @ CHR ''/'' # r @ CHR ''/'' # h) = ''gh'' @ CHR ''/'' # rest"
    by (simp add: ref_cache_getkey_Cons)
  moreover have "CHR ''/'' \<notin> set ''gh''" by simp
  ultimately have "s = ''gh''" using assms(3) append_sep_inject by metis
  with assms(2) show False by simp
qed

lemma lru_keys_enter:
  "lru_keys (ref_cache_enter now s u r h v c) \<subseteq> insert (ref_cache_getkey s u r (js_str h)) (lru_keys c)"
  by (simp add: ref_cache_enter_def lru_keys_set subset_insertI)

lemma lru_keys_read: "lru_keys (snd (ref_cache_read now s u r h c)) \<subseteq> lru_keys c"
  by (simp add: ref_cache_read_eq lru_keys_get)

lemma gh_keys_enter: "gh_keys c \<Longrightarrow> gh_keys (ref_cache_enter now ''gh'' u r h v c)"
proof -
  assume gh: "gh_keys c"
  have "ref_cache_getkey ''gh'' u r (js_str h) = ''gh/'' @ (u @ ''/'' @ r @ ''/'' @ js_str h)"
    by (simp add: ref_cache_getkey_def)
  with gh lru_keys_enter [of now "''gh''" u r h v c] show ?thesis
    unfolding gh_keys_def by blast
qed

lemma gh_keys_read: "gh_keys c \<Longrightarrow> gh_keys (snd (ref_cache_read now s u r h c))"
  using lru_keys_read [of now s u r h c] unfolding gh_keys_def by blast

lemma resolver_inv_init: "resolver_inv ref_cache_init"
  by (simp add: resolver_inv_def ref_cache_inv_def lru_inv_def gh_keys_def lru_keys_def
                ref_cache_init_def lru_new_def)

lemma resolver_inv_get: "resolver_inv c \<Longrightarrow> resolver_inv (snd (resolve_get now q c))"
  by (auto simp: resolver_inv_def resolve_get_eq Let_def ref_cache_inv_read gh_keys_read
           split: option.splits)

lemma resolver_inv_cb: "resolver_inv c \<Longrightarrow> resolver_inv (snd (resolve_cb now p res c))"
  by (auto simp: resolver_inv_def resolve_cb_eq ref_cache_inv_enter gh_keys_enter
           split: resolution.splits)

lemma resolve_get_fields [simp]:
  "lru_max (snd (resolve_get now q c)) = lru_max c"
  "lru_max_age (snd (resolve_get now q c)) = lru_max_age c"
  by (auto simp: resolve_get_eq Let_def split: option.splits)

lemma resolve_cb_fields [simp]:
  "lru_max (snd (resolve_cb now p res c)) = lru_max c"
  "lru_max_age (snd (resolve_cb now p res c)) = lru_max_age c"
  by (auto simp: resolve_cb_eq split: resolution.splits)

subsection \<open>Properties of the resolver\<close>

text \<open>C1: a cache hit answers at once from the cache: no upstream call.\<close>

theorem resolve_get_cache_hit:
  assumes "req_ref q = Some h"
    and "fst (ref_cache_read now (req_service q) (req_user q) (req_repo q) h c) = Some v"
  shows "resolve_get now q c =
           (Respond (resolve_ref v), snd (ref_cache_read now (req_service q) (req_user q) (req_repo q) h c)) \<and>
         (\<forall>gh t2. resolve_sync now t2 gh q c =
           (resolve_ref v, snd (ref_cache_read now (req_service q) (req_user q) (req_repo q) h c)))"
proof -
  from assms(2) have "jsv_truthy h" by (auto dest: ref_cache_read_Some)
  with assms have "resolve_get now q c =
      (Respond (resolve_ref v), snd (ref_cache_read now (req_service q) (req_user q) (req_repo q) h c))"
    by (simp add: resolve_get_eq)
  then show ?thesis by (simp add: resolve_sync_def)
qed

theorem resolve_get_cache_hit_witness:
  "resolve_get 100 \<lparr>req_service = ''gh'', req_user = ''octo'', req_repo = ''hello-world'', req_ref = Some (JStr ''main'')\<rparr>
     (ref_cache_enter 0 ''gh'' ''octo'' ''hello-world'' (JStr ''main'') ''abc123'' ref_cache_init) =
   (Respond (resolve_ref ''abc123''),
    snd (ref_cache_read 100 ''gh'' ''octo'' ''hello-world'' (JStr ''main'')
      (ref_cache_enter 0 ''gh'' ''octo'' ''hello-world'' (JStr ''main'') ''abc123'' ref_cache_init)))"
proof -
  let ?q = "\<lparr>req_service = ''gh'', req_user = ''octo'', req_repo = ''hello-world'', req_ref = Some (JStr ''main'')\<rparr>"
  let ?c = "ref_cache_enter 0 ''gh'' ''octo'' ''hello-world'' (JStr ''main'') ''abc123'' ref_cache_init"
  have h1: "req_ref ?q = Some (JStr ''main'')" by simp
  have h2: "fst (ref_cache_read 100 (req_service ?q) (req_user ?q) (req_repo ?q) (JStr ''main'') ?c) = Some ''abc123''"
    by (simp add: ref_cache_read_eq ref_cache_enter_def ref_cache_getkey_def ref_cache_init_def
                  lru_new_def lru_set_list lru_get_def is_stale_def alist_del_def)
  show ?thesis using resolve_get_cache_hit [OF h1 h2] by simp
qed

text \<open>
  C2: write-through. After a request that missed the cache and was resolved by the
  API to a commit, the same request is answered from the cache with that commit id
  for as long as the entry is fresh, with no further API call.
\<close>

theorem resolve_sync_then_hit:
  assumes get: "resolve_get tq q c = (Await p, c1)"
    and res: "gh_classify (gh (pend_call p)) = Resolved v"
    and ok: "js_truthy (req_user q) \<and> js_truthy (req_repo q) \<and> js_truthy v"
    and cap: "0 < lru_max c" and fresh: "tr - tc < lru_max_age c"
  shows "fst (resolve_sync tq tc gh q c) = resolve_ref v \<and>
         fst (resolve_get tr q (snd (resolve_sync tq tc gh q c))) = Respond (resolve_ref v)"
proof -
  from resolve_get_Await [OF get] have q: "req_service q = ''gh''" "req_ref q = Some (pend_origref p)"
    and tr: "jsv_truthy (pend_origref p)" and pu: "pend_user p = req_user q" "pend_repo p = req_repo q"
    and c1: "c1 = snd (ref_cache_read tq ''gh'' (req_user q) (req_repo q) (pend_origref p) c)"
    by auto
  let ?c2 = "ref_cache_enter tc ''gh'' (req_user q) (req_repo q) (pend_origref p) v c1"
  have sync: "resolve_sync tq tc gh q c = (resolve_ref v, ?c2)"
    using get res pu by (simp add: resolve_sync_def resolve_cb_eq)
  have "lru_max c1 = lru_max c" "lru_max_age c1 = lru_max_age c" using c1 by simp_all
  with ok tr cap fresh have "fst (ref_cache_read tr ''gh'' (req_user q) (req_repo q) (pend_origref p) ?c2) = Some v"
    by (simp add: ref_cache_read_enter)
  with q tr ok sync show ?thesis by (simp add: resolve_get_eq Let_def)
qed

theorem resolve_sync_then_hit_witness:
  "fst (resolve_sync 0 100 (gh_single ''octo'' ''hello-world'' ''heads/main'' (GitObject ''commit'' ''abc123''))
     \<lparr>req_service = ''gh'', req_user = ''octo'', req_repo = ''hello-world'', req_ref = Some (JStr ''main'')\<rparr>
     ref_cache_init) = resolve_ref ''abc123'' \<and>
   fst (resolve_get 2000 \<lparr>req_service = ''gh'', req_user = ''octo'', req_repo = ''hello-world'', req_ref = Some (JStr ''main'')\<rparr>
     (snd (resolve_sync 0 100 (gh_single ''octo'' ''hello-world'' ''heads/main'' (GitObject ''commit'' ''abc123''))
       \<lparr>req_service = ''gh'', req_user = ''octo'', req_repo = ''hello-world'', req_ref = Some (JStr ''main'')\<rparr>
       ref_cache_init))) = Respond (resolve_ref ''abc123'')"
proof -
  let ?q = "\<lparr>req_service = ''gh'', req_user = ''octo'', req_repo = ''hello-world'', req_ref = Some (JStr ''main'')\<rparr>"
  let ?gh = "gh_single ''octo'' ''hello-world'' ''heads/main'' (GitObject ''commit'' ''abc123'')"
  let ?p = "\<lparr>pend_user = ''octo'', pend_repo = ''hello-world'', pend_origref = JStr ''main'',
             pend_call = gh_get_reference ''octo'' ''hello-world'' (gh_reference (JStr ''main''))\<rparr>"
  have h1: "resolve_get 0 ?q ref_cache_init = (Await ?p, ref_cache_init)"
    by (simp add: resolve_get_eq ref_cache_read_eq ref_cache_init_def lru_new_def lru_get_def Let_def)
  have h2: "gh_classify (?gh (pend_call ?p)) = Resolved ''abc123''"
    by (simp add: gh_single_def gh_get_reference_def gh_reference_def)
  have h3: "js_truthy (req_user ?q) \<and> js_truthy (req_repo ?q) \<and> js_truthy ''abc123''" by simp
  have h4: "0 < lru_max ref_cache_init" by (simp add: ref_cache_init_def lru_new_def)
  have h5: "(2000::nat) - 100 < lru_max_age ref_cache_init" by (simp add: ref_cache_init_def lru_new_def)
  show ?thesis
    by (rule resolve_sync_then_hit [where gh = "gh_single ''octo'' ''hello-world'' ''heads/main''
          (GitObject ''commit'' ''abc123'')" and tc = 100 and tr = 2000, OF h1 h2 h3 h4 h5])
qed

text \<open>
  C7: an upstream object that is not a commit (an annotated tag, a tree, a blob) is
  answered with 404 "Unknown repository/reference" and nothing is cached.
\<close>

theorem resolve_cb_non_commit:
  assumes "obj_type obj \<noteq> ''commit''"
  shows "resolve_cb now p (ApiResult (Some (RefData (Some obj)))) c = (unknown_repository, c)"
  using assms by (simp add: resolve_cb_def)

theorem resolve_cb_non_commit_witness:
  "obj_type (GitObject ''tag'' ''abc123'') \<noteq> ''commit'' \<and>
   resolve_cb 100 \<lparr>pend_user = ''octo'', pend_repo = ''hello-world'', pend_origref = JStr ''v1'',
       pend_call = gh_get_reference ''octo'' ''hello-world'' (gh_reference (JStr ''v1''))\<rparr>
     (ApiResult (Some (RefData (Some (GitObject ''tag'' ''abc123''))))) ref_cache_init =
   (unknown_repository, ref_cache_init)"
proof -
  have h: "obj_type (GitObject ''tag'' ''abc123'') \<noteq> ''commit''" by simp
  show ?thesis using h resolve_cb_non_commit [OF h] by simp
qed

text \<open>
  C8: a request for a service other than \<open>gh\<close> (whose name has no slash) is
  answered with 404 "Unknown service", whatever the cache holds, since the resolver
  only ever caches keys of the service \<open>gh\<close>.
\<close>

theorem resolve_get_unknown_service:
  assumes "gh_keys c" and "req_service q \<noteq> ''gh''" and "CHR ''/'' \<notin> set (req_service q)"
    and "jsv_truthy_opt (req_ref q)"
  shows "fst (resolve_get now q c) = Respond unknown_service"
proof -
  obtain h where h: "req_ref q = Some h" "jsv_truthy h"
    using assms(4) by (cases "req_ref q") auto
  have "ref_cache_getkey (req_service q) (req_user q) (req_repo q) (js_str h) \<notin> lru_keys c"
    by (rule gh_keys_getkey_notin [OF assms(1-3)])
  then have "lru_view now c (ref_cache_getkey (req_service q) (req_user q) (req_repo q) (js_str h)) = None"
    by (rule lru_view_notin)
  then have "fst (ref_cache_read now (req_service q) (req_user q) (req_repo q) h c) = None"
  proof (cases "js_truthy (req_service q) \<and> js_truthy (req_user q) \<and> js_truthy (req_repo q) \<and> jsv_truthy h")
    case True
    with \<open>lru_view now c _ = None\<close> show ?thesis
      by (simp only: ref_cache_read_view [OF True]) simp
  next
    case False
    then show ?thesis by (auto simp: ref_cache_read_eq)
  qed
  with h assms(2) show ?thesis by (simp add: resolve_get_eq Let_def)
qed

theorem resolve_get_unknown_service_witness:
  "gh_keys ref_cache_init \<and>
   fst (resolve_get 0 \<lparr>req_service = ''svn'', req_user = ''acme'', req_repo = ''widgets'',
          req_ref = Some (JStr ''main'')\<rparr> ref_cache_init) = Respond unknown_service"
proof -
  let ?q = "\<lparr>req_service = ''svn'', req_user = ''acme'', req_repo = ''widgets'', req_ref = Some (JStr ''main'')\<rparr>"
  have h1: "gh_keys ref_cache_init" by (simp add: gh_keys_def lru_keys_def ref_cache_init_def lru_new_def)
  have h2: "req_service ?q \<noteq> ''gh''" by simp
  have h3: "CHR ''/'' \<notin> set (req_service ?q)" by simp
  have h4: "jsv_truthy_opt (req_ref ?q)" by simp
  show ?thesis using h1 resolve_get_unknown_service [OF h1 h2 h3 h4, of 0] by simp
qed

text \<open>
  C9: a request with no \<open>ref\<close> query parameter, or an empty one, is answered with
  404 "Unknown repository/reference": no default branch is chosen, the cache is not
  touched and GitHub is not asked.
\<close>

theorem resolve_get_missing_ref:
  assumes "\<not> jsv_truthy_opt (req_ref q)"
  shows "resolve_get now q c = (Respond unknown_repository, c) \<and>
         (\<forall>gh t2. resolve_sync now t2 gh q c = (unknown_repository, c))"
proof -
  from assms have "resolve_get now q c = (Respond unknown_repository, c)"
    by (simp add: resolve_get_eq)
  then show ?thesis by (simp add: resolve_sync_def)
qed

theorem resolve_get_missing_ref_witness:
  "resolve_get 0 \<lparr>req_service = ''gh'', req_user = ''acme'', req_repo = ''widgets'', req_ref = Some (JStr [])\<rparr>
     ref_cache_init = (Respond unknown_repository, ref_cache_init)"
proof -
  have h: "\<not> jsv_truthy_opt (req_ref \<lparr>req_service = ''gh'', req_user = ''acme'', req_repo = ''widgets'',
      req_ref = Some (JStr [])\<rparr>)" by simp
  show ?thesis using resolve_get_missing_ref [OF h, of 0 ref_cache_init] by simp
qed

text \<open>
  C15: The upstream failure policy: a transport or authentication error and a missing
  reference object are one externally visible error, 404 "Unknown
  repository/reference", and neither writes to the cache.
\<close>

theorem resolve_cb_failure:
  assumes "gh_classify res = RefNotFound \<or> gh_classify res = UpstreamFailure"
  shows "resolve_cb now p res c = (unknown_repository, c)"
  using assms by (auto simp: resolve_cb_eq)

theorem resolve_cb_failure_witness:
  "resolve_cb 100 \<lparr>pend_user = ''octo'', pend_repo = ''hello-world'', pend_origref = JStr ''main'',
       pend_call = gh_get_reference ''octo'' ''hello-world'' (gh_reference (JStr ''main''))\<rparr>
     ApiError ref_cache_init = (unknown_repository, ref_cache_init)"
proof -
  have h: "gh_classify ApiError = RefNotFound \<or> gh_classify ApiError = UpstreamFailure" by simp
  show ?thesis by (rule resolve_cb_failure [OF h])
qed

text \<open>
  C16: The upstream call: \<open>resolve.get\<close> asks GitHub exactly when the service is
  \<open>gh\<close>, a non-empty ref is given and the cache misses, and it asks for the branch
  head \<open>heads/<ref>\<close> of the requested owner and repository.
\<close>

theorem resolve_get_upstream_call:
  "(\<exists>p c'. resolve_get now q c = (Await p, c') \<and> pend_origref p = h \<and>
           pend_call p = \<lparr>call_owner = req_user q, call_repo = req_repo q, call_ref = ''heads/'' @ js_str h\<rparr>) \<longleftrightarrow>
   req_service q = ''gh'' \<and> req_ref q = Some h \<and> jsv_truthy h \<and>
   fst (ref_cache_read now ''gh'' (req_user q) (req_repo q) h c) = None"
proof
  assume "\<exists>p c'. resolve_get now q c = (Await p, c') \<and> pend_origref p = h \<and>
           pend_call p = \<lparr>call_owner = req_user q, call_repo = req_repo q, call_ref = ''heads/'' @ js_str h\<rparr>"
  then show "req_service q = ''gh'' \<and> req_ref q = Some h \<and> jsv_truthy h \<and>
      fst (ref_cache_read now ''gh'' (req_user q) (req_repo q) h c) = None"
    by (auto dest: resolve_get_Await)
next
  assume "req_service q = ''gh'' \<and> req_ref q = Some h \<and> jsv_truthy h \<and>
      fst (ref_cache_read now ''gh'' (req_user q) (req_repo q) h c) = None"
  then show "\<exists>p c'. resolve_get now q c = (Await p, c') \<and> pend_origref p = h \<and>
      pend_call p = \<lparr>call_owner = req_user q, call_repo = req_repo q, call_ref = ''heads/'' @ js_str h\<rparr>"
    by (simp add: resolve_get_eq Let_def gh_get_reference_def gh_reference_def)
qed

text \<open>
  C17: Every handler step keeps the resolver's cache invariant: distinct keys, at most
  \<open>max\<close> entries, non-empty commit ids, keys of the service \<open>gh\<close> only.
\<close>

theorem resolver_inv_preserved:
  assumes "resolver_inv c"
  shows "resolver_inv (snd (resolve_get now q c)) \<and> resolver_inv (snd (resolve_cb now p res c)) \<and>
         resolver_inv (snd (resolve_sync t1 t2 gh q c))"
proof -
  have "resolver_inv (snd (resolve_sync t1 t2 gh q c))"
  proof (cases "resolve_get t1 q c")
    case (Pair out c1)
    have c1: "resolver_inv c1" using resolver_inv_get [OF assms, of t1 q] Pair by simp
    show ?thesis
    proof (cases out)
      case (Respond r)
      with Pair c1 show ?thesis by (simp add: resolve_sync_def)
    next
      case (Await p')
      with Pair resolver_inv_cb [OF c1] show ?thesis by (simp add: resolve_sync_def)
    qed
  qed
  with assms show ?thesis by (simp add: resolver_inv_get resolver_inv_cb)
qed

theorem resolver_inv_preserved_witness:
  "resolver_inv (snd (resolve_get 0 \<lparr>req_service = ''gh'', req_user = ''octo'', req_repo = ''hello-world'',
      req_ref = Some (JStr ''main'')\<rparr> ref_cache_init))"
  using resolver_inv_preserved [OF resolver_inv_init] by blast

text \<open>
  C18: A successful answer is never invented: its commit id is either what the cache held
  for the request's key when the request arrived, or the sha of the commit object
  GitHub returned for \<open>heads/<ref>\<close>.
\<close>

theorem resolve_sync_sound:
  assumes "fst (resolve_sync t1 t2 gh q c) = resolve_ref v"
  shows "\<exists>h. req_ref q = Some h \<and>
           (fst (ref_cache_read t1 (req_service q) (req_user q) (req_repo q) h c) = Some v \<or>
            req_service q = ''gh'' \<and>
            gh_classify (gh \<lparr>call_owner = req_user q, call_repo = req_repo q, call_ref = ''heads/'' @ js_str h\<rparr>) = Resolved v)"
proof (cases "resolve_get t1 q c")
  case (Pair out c1)
  show ?thesis
  proof (cases out)
    case (Respond r)
    with Pair assms have "resolve_get t1 q c = (Respond (resolve_ref v), c1)"
      by (simp add: resolve_sync_def)
    then show ?thesis
      by (auto simp: resolve_get_eq Let_def jsv_truthy_opt_iff split: if_splits option.splits)
  next
    case (Await p)
    with Pair have a: "resolve_get t1 q c = (Await p, c1)" by simp
    with assms have "fst (resolve_cb t2 p (gh (pend_call p)) c1) = resolve_ref v"
      by (simp add: resolve_sync_def)
    then have "gh_classify (gh (pend_call p)) = Resolved v"
      by (auto simp: resolve_cb_eq split: resolution.splits)
    with resolve_get_Await [OF a] show ?thesis
      by (auto simp: gh_get_reference_def gh_reference_def)
  qed
qed

theorem resolve_sync_sound_witness:
  "\<exists>h. req_ref \<lparr>req_service = ''gh'', req_user = ''octo'', req_repo = ''hello-world'', req_ref = Some (JStr ''main'')\<rparr> = Some h \<and>
     (fst (ref_cache_read 0 ''gh'' ''octo'' ''hello-world'' h ref_cache_init) = Some ''abc123'' \<or>
      gh_classify (gh_single ''octo'' ''hello-world'' ''heads/main'' (GitObject ''commit'' ''abc123'')
        \<lparr>call_owner = ''octo'', call_repo = ''hello-world'', call_ref = ''heads/'' @ js_str h\<rparr>) = Resolved ''abc123'')"
proof -
  let ?q = "\<lparr>req_service = ''gh'', req_user = ''octo'', req_repo = ''hello-world'', req_ref = Some (JStr ''main'')\<rparr>"
  let ?gh = "gh_single ''octo'' ''hello-world'' ''heads/main'' (GitObject ''commit'' ''abc123'')"
  have h: "fst (resolve_sync 0 100 ?gh ?q ref_cache_init) = resolve_ref ''abc123''"
    by (simp add: resolve_sync_def resolve_get_eq ref_cache_read_eq ref_cache_init_def lru_new_def
                  lru_get_def resolve_cb_def gh_single_def gh_get_reference_def gh_reference_def Let_def)
  show ?thesis using resolve_sync_sound [OF h] by simp
qed

text \<open>
  C11: the key collision at the level of requests: after \<open>octo/hello\<close> branch \<open>world/main\<close> was
  resolved, a request for the nonexistent repository \<open>octo/hello/world\<close> with ref
  \<open>main\<close>, and a request for the unregistered service \<open>gh/octo\<close>, are both
  answered 200 with that branch's commit id from the cache.
\<close>

theorem resolve_key_collision_requests:
  "fst (resolve_sync 0 100 (gh_single ''octo'' ''hello'' ''heads/world/main'' (GitObject ''commit'' ''abc123''))
     \<lparr>req_service = ''gh'', req_user = ''octo'', req_repo = ''hello'', req_ref = Some (JStr ''world/main'')\<rparr>
     ref_cache_init) = resolve_ref ''abc123'' \<and>
   fst (resolve_get 200 \<lparr>req_service = ''gh'', req_user = ''octo'', req_repo = ''hello/world'', req_ref = Some (JStr ''main'')\<rparr>
     (snd (resolve_sync 0 100 (gh_single ''octo'' ''hello'' ''heads/world/main'' (GitObject ''commit'' ''abc123''))
       \<lparr>req_service = ''gh'', req_user = ''octo'', req_repo = ''hello'', req_ref = Some (JStr ''world/main'')\<rparr>
       ref_cache_init))) = Respond (resolve_ref ''abc123'') \<and>
   fst (resolve_get 200 \<lparr>req_service = ''gh/octo'', req_user = ''hello'', req_repo = ''world'', req_ref = Some (JStr ''main'')\<rparr>
     (snd (resolve_sync 0 100 (gh_single ''octo'' ''hello'' ''heads/world/main'' (GitObject ''commit'' ''abc123''))
       \<lparr>req_service = ''gh'', req_user = ''octo'', req_repo = ''hello'', req_ref = Some (JStr ''world/main'')\<rparr>
       ref_cache_init))) = Respond (resolve_ref ''abc123'')"
  by (simp add: resolve_sync_def resolve_get_eq resolve_cb_def ref_cache_read_eq ref_cache_enter_def
                ref_cache_getkey_def ref_cache_init_def lru_new_def lru_get_def lru_set_list is_stale_def
                alist_del_def gh_single_def gh_get_reference_def gh_reference_def Let_def)

text \<open>
  C19: A commit object without a sha is answered 200 with an empty \<open>ref\<close>, and the
  write to the cache is skipped by the truthiness guard of \<open>ref_cache_enter\<close>.
\<close>

theorem resolve_cb_empty_sha:
  "resolve_cb now p (ApiResult (Some (RefData (Some (GitObject ''commit'' []))))) c = (resolve_ref [], c)"
  by (simp add: resolve_cb_def ref_cache_enter_def)

end
