(* ===== verification/Bootstrap.thy ===== *)
theory Bootstrap
  imports Prelude
begin

text \<open>
  Start-up of the process (\<^verbatim>\<open>src/index.js\<close> lines 9--19): the listening port is
  \<^verbatim>\<open>process.env.PORT\<close> when that variable is truthy and 9999 otherwise; without a
  truthy \<^verbatim>\<open>GH_KEY\<close> the process prints \<^verbatim>\<open>Huh?\<close> to standard error and exits
  with status 1, before any request is served; otherwise the key becomes the token that
  authenticates every GitHub call. The environment is a partial map from variable names
  to strings; the outcome of start-up is a sum, \<open>Inl\<close> the exit status with the
  message, \<open>Inr\<close> the configuration the server runs with.
\<close>

type_synonym env = "string \<Rightarrow> string option"

datatype port = PortEnv string | PortDefault nat

record config =
  cfg_port :: port
  cfg_token :: string

definition config_port :: "env \<Rightarrow> port" where
  "config_port e =
     (case e ''PORT'' of
        Some p \<Rightarrow> if js_truthy p then PortEnv p else PortDefault 9999
      | None \<Rightarrow> PortDefault 9999)"

definition bootstrap :: "env \<Rightarrow> (nat \<times> string) + config" where
  "bootstrap e =
     (case e ''GH_KEY'' of
        None \<Rightarrow> Inl (1, ''Huh?'')
      | Some k \<Rightarrow> if js_truthy k then Inr \<lparr>cfg_port = config_port e, cfg_token = k\<rparr> else Inl (1, ''Huh?''))"

subsection \<open>Behaviour of start-up\<close>

lemma bootstrap_cases:
  "bootstrap e = Inl (1, ''Huh?'') \<and> \<not> js_truthy_opt (e ''GH_KEY'') \<or>
   (\<exists>k. e ''GH_KEY'' = Some k \<and> js_truthy k \<and> bootstrap e = Inr \<lparr>cfg_port = config_port e, cfg_token = k\<rparr>)"
  by (auto simp: bootstrap_def split: option.splits)

end
