(* ===== verification/Uri.thy ===== *)
theory Uri
  imports Prelude
begin

text \<open>
  Percent-encoding as JavaScript and Express use it, on byte strings:
  \<open>uri_decode\<close> is \<^verbatim>\<open>decodeURIComponent\<close> (a \<open>%\<close> not followed by two hex
  digits is an error, \<open>None\<close>; the check that the decoded bytes form valid UTF-8 is not
  modelled), \<open>uri_encode\<close> is \<^verbatim>\<open>encodeURIComponent\<close>, which keeps the
  unreserved characters and writes every other byte as \<open>%XX\<close>. Express decodes path
  parameters with the first, the query parser decodes keys and values with it, and a
  client builds its requests with the second; \<open>uri_decode_encode\<close> is their round trip.
\<close>

definition hex_val :: "char \<Rightarrow> nat option" where
  "hex_val c =
     (let n = (of_char c :: nat) in
      if 48 \<le> n \<and> n \<le> 57 then Some (n - 48)
      else if 65 \<le> n \<and> n \<le> 70 then Some (n - 55)
      else if 97 \<le> n \<and> n \<le> 102 then Some (n - 87)
      else None)"

fun uri_decode :: "string \<Rightarrow> string option" where
  "uri_decode [] = Some []"
| "uri_decode (c # cs) =
     (if c = CHR ''%'' then
        (case cs of
           a # b # rest \<Rightarrow>
             (case (hex_val a, hex_val b) of
                (Some x, Some y) \<Rightarrow> map_option ((#) (char_of (16 * x + y))) (uri_decode rest)
              | _ \<Rightarrow> None)
         | _ \<Rightarrow> None)
      else map_option ((#) c) (uri_decode cs))"

text \<open>A client builds the path of a request with \<^verbatim>\<open>encodeURIComponent\<close>:
  unreserved characters are kept, every other byte becomes \<open>%XX\<close>.\<close>

definition uri_unreserved :: "char \<Rightarrow> bool" where
  "uri_unreserved c \<longleftrightarrow>
     (let n = (of_char c :: nat) in
      (48 \<le> n \<and> n \<le> 57) \<or> (65 \<le> n \<and> n \<le> 90) \<or> (97 \<le> n \<and> n \<le> 122) \<or>
      c \<in> set ''-_.!~*'()'')"

definition hex_digit :: "nat \<Rightarrow> char" where
  "hex_digit d = char_of (if d < 10 then 48 + d else 55 + d)"

fun uri_encode :: "string \<Rightarrow> string" where
  "uri_encode [] = []"
| "uri_encode (c # cs) =
     (if uri_unreserved c then [c]
      else [CHR ''%'', hex_digit (of_char c div 16), hex_digit (of_char c mod 16)]) @ uri_encode cs"

subsection \<open>Round trip\<close>

lemma of_char_hex_digit: "d < 16 \<Longrightarrow> of_char (hex_digit d) = (if d < 10 then 48 + d else 55 + (d::nat))"
  by (simp add: hex_digit_def)

lemma hex_val_digit: "d < 16 \<Longrightarrow> hex_val (hex_digit d) = Some d"
  by (auto simp: hex_val_def hex_digit_def Let_def)

lemma of_char_div_16: "of_char c div 16 < (16::nat)"
  using nat_of_char_less_256 [of c] by (simp add: div_less_iff_less_mult)

lemma char_of_div_mod: "char_of (16 * (of_char c div 16) + of_char c mod (16::nat)) = c"
  by (simp add: mult_div_mod_eq)

lemma uri_unreserved_not: "uri_unreserved c \<Longrightarrow> c \<noteq> CHR ''%'' \<and> c \<noteq> CHR ''/''"
  by (auto simp: uri_unreserved_def Let_def)

lemma uri_decode_encode: "uri_decode (uri_encode s) = Some s"
proof (induction s)
  case Nil
  then show ?case by simp
next
  case (Cons c s)
  have lt: "of_char c div 16 < (16::nat)" "of_char c mod 16 < (16::nat)"
    using of_char_div_16 [of c] by simp_all
  show ?case
  proof (cases "uri_unreserved c")
    case True
    then show ?thesis using Cons uri_unreserved_not [OF True] by simp
  next
    case False
    then show ?thesis using Cons lt by (simp add: hex_val_digit char_of_div_mod)
  qed
qed

lemma uri_unreserved_hex_digit: "d < 16 \<Longrightarrow> uri_unreserved (hex_digit d)"
  using of_char_hex_digit [of d] by (auto simp: uri_unreserved_def Let_def)

text \<open>A reserved character other than \<open>%\<close> never occurs in an encoded string.\<close>

lemma reserved_notin_uri_encode:
  assumes "\<not> uri_unreserved x" and "x \<noteq> CHR ''%''"
  shows "x \<notin> set (uri_encode s)"
proof (induction s)
  case (Cons c s)
  have lt: "of_char c div 16 < (16::nat)" "of_char c mod 16 < (16::nat)"
    using of_char_div_16 [of c] by simp_all
  with Cons assms show ?case
    using uri_unreserved_hex_digit [OF lt(1)] uri_unreserved_hex_digit [OF lt(2)] by auto
qed simp

lemma slash_notin_uri_encode: "CHR ''/'' \<notin> set (uri_encode s)"
  by (rule reserved_notin_uri_encode) (simp_all add: uri_unreserved_def)

lemma uri_encode_Nil_iff [simp]: "uri_encode s = [] \<longleftrightarrow> s = []"
  by (cases s) auto


end
