(* ===== verification/Query.thy ===== *)
theory Query
  imports Uri
begin

text \<open>
  The query parser that gives \<^verbatim>\<open>req.query.ref\<close> its value (\<^verbatim>\<open>src/index.js\<close>
  line 64). Express 4 parses the query string, the text after \<open>?\<close>, with
  \<^verbatim>\<open>qs.parse(str, {allowPrototypes: true})\<close>; the model follows \<^verbatim>\<open>qs\<close> 6.13,
  the version Express 4.21 installs (the repository pins no version). Its first pass,
  \<^verbatim>\<open>parseValues\<close>, rewrites \<open>%5B\<close> and \<open>%5D\<close> (either case) to brackets,
  splits at \<open>&\<close> keeping the first 1000 pieces (\<^verbatim>\<open>parameterLimit\<close>), splits each
  piece into key and value at the \<open>=\<close> of its first \<open>]=\<close>, else at its first
  \<open>=\<close> (no \<open>=\<close>: the value is empty), and decodes both (\<open>+\<close> is a space, then
  \<^verbatim>\<open>decodeURIComponent\<close>, the undecoded text when that throws); a repeated key
  collects its values in an array (\<^verbatim>\<open>utils.combine\<close>). Its second pass hands each
  key to \<^verbatim>\<open>parseKeys\<close> and merges the objects it builds, in the order the keys first
  occurred, with \<^verbatim>\<open>utils.merge\<close>.

  Only the property \<^verbatim>\<open>ref\<close> of the result is modelled, and only the keys that
  give it a value without nesting: \<^verbatim>\<open>ref\<close> itself and \<^verbatim>\<open>ref[]\<close>, whose value
  \<^verbatim>\<open>parseKeys\<close> wraps into an array. Other keys holding a bracket pair
  (\<^verbatim>\<open>ref[0]\<close>, \<^verbatim>\<open>ref[k]\<close>, \<^verbatim>\<open>[ref]\<close>, \<^verbatim>\<open>ref[][]\<close>) also reach
  \<^verbatim>\<open>ref\<close> in \<^verbatim>\<open>qs\<close> and are outside the model, which leaves \<^verbatim>\<open>ref\<close>
  untouched by them; keys without brackets other than \<^verbatim>\<open>ref\<close> never reach it. Values
  are strings or arrays of strings (\<open>qs_val\<close>) until the end, where they become the
  JavaScript value \<open>jsval\<close> of the handler.
\<close>

datatype qs_val = QStr string | QArr "string list"

text \<open>\<^verbatim>\<open>str.replace(/%5B/gi, '[')\<close> and its \<open>%5D\<close> twin: a left-to-right scan
  that replaces \<open>%5\<close> followed by \<open>up\<close> or \<open>lo\<close> with \<open>r\<close>.\<close>

fun qs_unescape :: "char \<Rightarrow> char \<Rightarrow> char \<Rightarrow> string \<Rightarrow> string" where
  "qs_unescape up lo r (c1 # c2 # c3 # cs) =
     (if c1 = CHR ''%'' \<and> c2 = CHR ''5'' \<and> (c3 = up \<or> c3 = lo) then r # qs_unescape up lo r cs
      else c1 # qs_unescape up lo r (c2 # c3 # cs))"
| "qs_unescape up lo r cs = cs"

definition qs_clean :: "string \<Rightarrow> string" where
  "qs_clean s = qs_unescape CHR ''D'' CHR ''d'' CHR '']'' (qs_unescape CHR ''B'' CHR ''b'' CHR ''['' s)"

text \<open>\<^verbatim>\<open>utils.decode\<close>.\<close>

definition qs_decode :: "string \<Rightarrow> string" where
  "qs_decode s =
     (let s' = map (\<lambda>c. if c = CHR ''+'' then CHR '' '' else c) s in
      case uri_decode s' of Some d \<Rightarrow> d | None \<Rightarrow> s')"

text \<open>\<^verbatim>\<open>part.indexOf(']=')\<close> and \<^verbatim>\<open>part.indexOf('=')\<close>, \<open>None\<close> for \<open>-1\<close>.\<close>

fun index_of2 :: "char \<Rightarrow> char \<Rightarrow> string \<Rightarrow> nat option" where
  "index_of2 a b (c # d # cs) = (if c = a \<and> d = b then Some 0 else map_option Suc (index_of2 a b (d # cs)))"
| "index_of2 a b cs = None"

fun index_of :: "char \<Rightarrow> string \<Rightarrow> nat option" where
  "index_of a [] = None"
| "index_of a (c # cs) = (if c = a then Some 0 else map_option Suc (index_of a cs))"

text \<open>One piece of the query as key and value, both decoded.\<close>

definition qs_pair :: "string \<Rightarrow> string \<times> string" where
  "qs_pair part =
     (let pos = (case index_of2 CHR '']'' CHR ''='' part of
                   Some i \<Rightarrow> Some (Suc i)
                 | None \<Rightarrow> index_of CHR ''='' part) in
      case pos of
        None \<Rightarrow> (qs_decode part, [])
      | Some p \<Rightarrow> (qs_decode (take p part), qs_decode (drop (Suc p) part)))"

definition qs_parts :: "string \<Rightarrow> string list" where
  "qs_parts q = take 1000 (js_split CHR ''&'' (qs_clean q))"

text \<open>\<^verbatim>\<open>utils.combine\<close>: a repeated key collects its values.\<close>

fun qs_combine :: "qs_val \<Rightarrow> string \<Rightarrow> qs_val" where
  "qs_combine (QStr a) v = QArr [a, v]"
| "qs_combine (QArr as) v = QArr (as @ [v])"

text \<open>\<^verbatim>\<open>parseValues\<close>: the keys in the order they first occur, each with its
  value or the values collected for it.\<close>

fun qs_values :: "(string \<times> qs_val) list \<Rightarrow> string list \<Rightarrow> (string \<times> qs_val) list" where
  "qs_values obj [] = obj"
| "qs_values obj (part # parts) =
     (let (k, v) = qs_pair part in
      qs_values (case map_of obj k of
                   None \<Rightarrow> obj @ [(k, QStr v)]
                 | Some old \<Rightarrow> map (\<lambda>(k', x). (k', if k' = k then qs_combine old v else x)) obj)
                parts)"

text \<open>\<^verbatim>\<open>utils.merge\<close> of the value built so far with the next one: a falsy
  (empty) string is dropped once a value exists, a string is appended to an array or
  paired with a string, an array is appended to a string or an array.\<close>

fun qs_merge :: "qs_val option \<Rightarrow> qs_val \<Rightarrow> qs_val option" where
  "qs_merge None v = Some v"
| "qs_merge (Some t) (QStr s) =
     (if s = [] then Some t
      else Some (case t of QStr a \<Rightarrow> QArr [a, s] | QArr as \<Rightarrow> QArr (as @ [s])))"
| "qs_merge (Some (QStr a)) (QArr bs) = Some (QArr (a # bs))"
| "qs_merge (Some (QArr as)) (QArr bs) = Some (QArr (as @ bs))"

fun qs_list :: "qs_val \<Rightarrow> string list" where
  "qs_list (QStr a) = [a]"
| "qs_list (QArr as) = as"

text \<open>The loop of \<^verbatim>\<open>qs.parse\<close> over the keys, restricted to property
  \<^verbatim>\<open>ref\<close>: \<^verbatim>\<open>parseKeys('ref', v)\<close> is \<open>{ref: v}\<close>,
  \<^verbatim>\<open>parseKeys('ref[]', v)\<close> is \<open>{ref: [].concat(v)}\<close>.\<close>

fun qs_ref_merge :: "qs_val option \<Rightarrow> (string \<times> qs_val) list \<Rightarrow> qs_val option" where
  "qs_ref_merge acc [] = acc"
| "qs_ref_merge acc ((k, v) # kvs) =
     qs_ref_merge (if k = ''ref'' then qs_merge acc v
                   else if k = ''ref[]'' then qs_merge acc (QArr (qs_list v))
                   else acc) kvs"

fun qs_jsval :: "qs_val \<Rightarrow> jsval" where
  "qs_jsval (QStr s) = JStr s"
| "qs_jsval (QArr xs) = JArr xs"

definition query_ref :: "string \<Rightarrow> jsval option" where
  "query_ref q = map_option qs_jsval (qs_ref_merge None (qs_values [] (qs_parts q)))"

text \<open>The definitions that evaluate the parser on a concrete query.\<close>

lemmas query_ref_eval = query_ref_def qs_parts_def qs_clean_def qs_pair_def qs_decode_def hex_val_def

subsection \<open>Decoding after the bracket rewrite\<close>

lemma hex_val_lt: "hex_val c = Some x \<Longrightarrow> x < 16"
  by (auto simp: hex_val_def Let_def split: if_splits)

lemma qs_unescape_other [simp]:
  "c \<noteq> CHR ''%'' \<Longrightarrow> qs_unescape up lo r (c # cs) = c # qs_unescape up lo r cs"
  by (cases cs; cases "tl cs") auto

lemma set_qs_unescape: "set (qs_unescape up lo r s) \<subseteq> insert r (set s)"
  by (induction up lo r s rule: qs_unescape.induct) auto

text \<open>Rewriting the escape \<open>%5X\<close> to the character it stands for keeps a string
  that decodes decoding to the same text.\<close>

lemma uri_decode_qs_unescape:
  assumes up: "hex_val up = Some x" and lo: "hex_val lo = Some x" and r: "of_char r = (80 + x :: nat)"
  shows "uri_decode s = Some d \<Longrightarrow> uri_decode (qs_unescape up lo r s) = Some d"
proof (induction s arbitrary: d rule: uri_decode.induct)
  case 1
  then show ?case by simp
next
  case (2 c cs)
  show ?case
  proof (cases "c = CHR ''%''")
    case False
    with 2 show ?thesis by auto
  next
    case True
    with "2.prems" obtain a b rest xa xb d' where
      cs: "cs = a # b # rest" and ha: "hex_val a = Some xa" and hb: "hex_val b = Some xb"
      and dr: "uri_decode rest = Some d'" and d: "d = char_of (16 * xa + xb) # d'"
      by (auto split: list.splits option.splits)
    have ih: "uri_decode (qs_unescape up lo r rest) = Some d'"
      using "2.IH"(1) [OF True cs(1)] ha hb dr by simp
    have nab: "a \<noteq> CHR ''%''" "b \<noteq> CHR ''%''"
      using ha hb by (auto simp: hex_val_def)
    have nr: "r \<noteq> CHR ''%''" using r by auto
    show ?thesis
    proof (cases "a = CHR ''5'' \<and> (b = up \<or> b = lo)")
      case True
      then have "xa = 5" "xb = x" using ha hb up lo by (auto simp: hex_val_def)
      then have "16 * xa + xb = of_char r" using r by simp
      then have "char_of (16 * xa + xb) = r" by simp
      with True \<open>c = CHR ''%''\<close> cs d ih nr show ?thesis by simp
    next
      case False
      with \<open>c = CHR ''%''\<close> cs d ih nab ha hb nr show ?thesis by auto
    qed
  qed
qed

lemma uri_decode_qs_clean:
  assumes "uri_decode s = Some d"
  shows "uri_decode (qs_clean s) = Some d"
proof -
  have h: "uri_decode (qs_unescape CHR ''B'' CHR ''b'' CHR ''['' s) = Some d"
    by (rule uri_decode_qs_unescape [of _ 11]) (simp_all add: hex_val_def assms)
  show ?thesis
    unfolding qs_clean_def by (rule uri_decode_qs_unescape [of _ 13]) (simp_all add: hex_val_def h)
qed

lemma set_qs_clean: "set (qs_clean s) \<subseteq> {CHR ''['', CHR '']''} \<union> set s"
  unfolding qs_clean_def
  using set_qs_unescape [of "CHR ''D''" "CHR ''d''" "CHR '']''" "qs_unescape CHR ''B'' CHR ''b'' CHR ''['' s"]
    set_qs_unescape [of "CHR ''B''" "CHR ''b''" "CHR ''[''" s]
  by blast

lemma index_of2_none: "b \<notin> set cs \<Longrightarrow> index_of2 a b (x # cs) = None"
  by (induction cs arbitrary: x) auto

subsection \<open>A client's query\<close>

lemma qs_decode_clean_encode: "qs_decode (qs_clean (uri_encode v)) = v"
proof -
  let ?c = "qs_clean (uri_encode v)"
  have "CHR ''+'' \<notin> set ?c"
    using set_qs_clean [of "uri_encode v"] reserved_notin_uri_encode [of "CHR ''+''" v]
    by (auto simp: uri_unreserved_def)
  then have "map (\<lambda>c. if c = CHR ''+'' then CHR '' '' else c) ?c = ?c"
    by (intro map_idI) auto
  moreover have "uri_decode ?c = Some v"
    by (rule uri_decode_qs_clean [OF uri_decode_encode])
  ultimately show ?thesis by (simp add: qs_decode_def)
qed

text \<open>C33: a client that writes the query as \<^verbatim>\<open>ref=\<close> followed by
  \<^verbatim>\<open>encodeURIComponent(v)\<close> hands the handler exactly the string \<open>v\<close> as
  \<^verbatim>\<open>req.query.ref\<close>, whatever characters \<open>v\<close> holds (\<open>&\<close>, \<open>=\<close>, \<open>+\<close>,
  \<open>%\<close>, brackets).\<close>

theorem query_ref_encode: "query_ref (''ref='' @ uri_encode v) = Some (JStr v)"
proof -
  let ?c = "qs_clean (uri_encode v)"
  have amp: "CHR ''&'' \<notin> set ?c" and eq: "CHR ''='' \<notin> set ?c"
    using set_qs_clean [of "uri_encode v"]
      reserved_notin_uri_encode [of "CHR ''&''" v] reserved_notin_uri_encode [of "CHR ''=''" v]
    by (auto simp: uri_unreserved_def)
  have "qs_clean (''ref='' @ uri_encode v) = ''ref='' @ ?c"
    by (simp add: qs_clean_def)
  then have parts: "qs_parts (''ref='' @ uri_encode v) = [''ref='' @ ?c]"
    using amp by (simp add: qs_parts_def js_split_nosep)
  have pair: "qs_pair (''ref='' @ ?c) = (''ref'', v)"
    using eq by (simp add: qs_pair_def index_of2_none qs_decode_clean_encode) (simp add: qs_decode_def)
  show ?thesis
    unfolding query_ref_def parts using pair by simp
qed

subsection \<open>When \<^verbatim>\<open>ref\<close> is an array\<close>

text \<open>The value \<^verbatim>\<open>parseValues\<close> gives a key is its values in order, folded with
  \<^verbatim>\<open>utils.combine\<close>.\<close>

definition qs_add :: "qs_val option \<Rightarrow> string \<Rightarrow> qs_val option" where
  "qs_add acc v = Some (case acc of None \<Rightarrow> QStr v | Some x \<Rightarrow> qs_combine x v)"

lemma map_of_map_key:
  "map_of (map (\<lambda>(k', x). (k', f k' x)) obj) k = map_option (f k) (map_of obj k)"
  by (induction obj) auto

lemma map_of_qs_values:
  "map_of (qs_values obj parts) k =
     foldl qs_add (map_of obj k) (map snd (filter (\<lambda>kv. fst kv = k) (map qs_pair parts)))"
proof (induction parts arbitrary: obj)
  case Nil
  then show ?case by simp
next
  case (Cons part parts)
  obtain k0 v where p: "qs_pair part = (k0, v)" by (cases "qs_pair part")
  show ?case
    by (cases "map_of obj k0")
       (auto simp: p Cons map_of_map_key qs_add_def map_of_append map_add_def option.map_ident
             split: option.splits)
qed

lemma foldl_qs_add_arr:
  "foldl qs_add (Some (QArr xs)) vs = Some (QArr (xs @ vs))"
  by (induction vs arbitrary: xs) (auto simp: qs_add_def)

lemma foldl_qs_add_two:
  assumes "2 \<le> length vs"
  shows "\<exists>xs. foldl qs_add None vs = Some (QArr xs)"
proof -
  obtain a b ws where "vs = a # b # ws"
    using assms by (cases vs; cases "tl vs") auto
  then show ?thesis by (simp add: qs_add_def foldl_qs_add_arr)
qed

lemma foldl_qs_add_Some: "\<exists>x. foldl qs_add (Some y) vs = Some x"
  by (induction vs arbitrary: y) (auto simp: qs_add_def)

lemma foldl_qs_add_nonempty: "vs \<noteq> [] \<Longrightarrow> \<exists>x. foldl qs_add acc vs = Some x"
  by (cases vs) (auto simp: qs_add_def [of acc] foldl_qs_add_Some)

lemma qs_merge_arr_target: "\<exists>ys. qs_merge (Some (QArr xs)) v = Some (QArr ys)"
  by (cases v) auto

lemma qs_merge_arr_source: "\<exists>ys. qs_merge acc (QArr xs) = Some (QArr ys)"
  by (cases acc; cases "the acc") auto

lemma qs_ref_merge_arr: "\<exists>ys. qs_ref_merge (Some (QArr xs)) kvs = Some (QArr ys)"
proof (induction kvs arbitrary: xs)
  case (Cons kv kvs)
  obtain k v where kv: "kv = (k, v)" by (cases kv)
  have "\<exists>zs. (if k = ''ref'' then qs_merge (Some (QArr xs)) v
               else if k = ''ref[]'' then qs_merge (Some (QArr xs)) (QArr (qs_list v))
               else Some (QArr xs)) = Some (QArr zs)"
    using qs_merge_arr_target [of xs v] qs_merge_arr_target [of xs "QArr (qs_list v)"] by auto
  then obtain zs where "(if k = ''ref'' then qs_merge (Some (QArr xs)) v
                    else if k = ''ref[]'' then qs_merge (Some (QArr xs)) (QArr (qs_list v))
                    else Some (QArr xs)) = Some (QArr zs)" by blast
  then show ?case using Cons.IH [of zs] by (simp add: kv)
qed simp

text \<open>A key \<^verbatim>\<open>ref[]\<close>, or a value of \<^verbatim>\<open>ref\<close> that is already an array, makes
  the merged value an array, and it stays one.\<close>

lemma qs_ref_merge_hits_arr:
  assumes "(''ref[]'', v) \<in> set kvs \<or> (''ref'', QArr xs) \<in> set kvs"
  shows "\<exists>ys. qs_ref_merge acc kvs = Some (QArr ys)"
  using assms
proof (induction kvs arbitrary: acc)
  case (Cons kv kvs)
  obtain k w where kv: "kv = (k, w)" by (cases kv)
  show ?case
  proof (cases "kv = (''ref[]'', v) \<or> kv = (''ref'', QArr xs)")
    case True
    then obtain zs where "qs_merge acc (QArr (if k = ''ref[]'' then qs_list w else xs)) = Some (QArr zs)"
      using qs_merge_arr_source by blast
    with True kv show ?thesis using qs_ref_merge_arr [of zs kvs] by auto
  next
    case False
    with Cons.prems have "(''ref[]'', v) \<in> set kvs \<or> (''ref'', QArr xs) \<in> set kvs" by auto
    then show ?thesis using Cons.IH by (simp add: kv)
  qed
qed simp

text \<open>Every query that writes \<^verbatim>\<open>ref[]\<close>, or writes \<^verbatim>\<open>ref\<close> twice or more,
  gives \<^verbatim>\<open>req.query.ref\<close> an array, whatever the values.\<close>

lemma query_ref_array:
  assumes "''ref[]'' \<in> fst ` set (map qs_pair (qs_parts q)) \<or>
           2 \<le> length (filter (\<lambda>kv. fst kv = ''ref'') (map qs_pair (qs_parts q)))"
  shows "\<exists>xs. query_ref q = Some (JArr xs)"
proof -
  let ?obj = "qs_values [] (qs_parts q)"
  have "\<exists>v xs. (''ref[]'', v) \<in> set ?obj \<or> (''ref'', QArr xs) \<in> set ?obj"
    using assms
  proof
    assume "''ref[]'' \<in> fst ` set (map qs_pair (qs_parts q))"
    then have "filter (\<lambda>kv. fst kv = ''ref[]'') (map qs_pair (qs_parts q)) \<noteq> []"
      by (auto simp: filter_empty_conv)
    then obtain v where "map_of ?obj ''ref[]'' = Some v"
      using foldl_qs_add_nonempty [of "map snd (filter (\<lambda>kv. fst kv = ''ref[]'') (map qs_pair (qs_parts q)))" None]
      by (auto simp: map_of_qs_values)
    then show ?thesis by (blast dest: map_of_SomeD)
  next
    assume "2 \<le> length (filter (\<lambda>kv. fst kv = ''ref'') (map qs_pair (qs_parts q)))"
    then obtain xs where "map_of ?obj ''ref'' = Some (QArr xs)"
      using foldl_qs_add_two [of "map snd (filter (\<lambda>kv. fst kv = ''ref'') (map qs_pair (qs_parts q)))"]
      by (auto simp: map_of_qs_values)
    then show ?thesis by (blast dest: map_of_SomeD)
  qed
  then obtain v xs where "(''ref[]'', v) \<in> set ?obj \<or> (''ref'', QArr xs) \<in> set ?obj" by blast
  from qs_ref_merge_hits_arr [OF this, of None] show ?thesis
    by (auto simp: query_ref_def)
qed

end
