(* ===== verification/App.thy ===== *)
theory App
  imports Resolver Bootstrap Query
begin

text \<open>
  The HTTP wiring of \<^verbatim>\<open>src/index.js\<close> (lines 106--134): the \<^verbatim>\<open>cors\<close>
  middleware with origin \<open>*\<close> and method \<open>GET\<close>, and the two paths handed to
  \<^verbatim>\<open>express-openapi\<close>, \<^verbatim>\<open>/{service}/{user}/{repo}/resolve\<close> to the module
  \<^verbatim>\<open>resolve\<close> and \<^verbatim>\<open>/{service}/{user}/{repo}/pathderef\<close> to \<^verbatim>\<open>pathderef\<close>,
  beside which \<^verbatim>\<open>express-openapi\<close> installs its default route \<^verbatim>\<open>GET /api-docs\<close>
  (option \<^verbatim>\<open>exposeApiDocs\<close>, not switched off here), answering 200 with the API
  document.
  The libraries' behaviour that this configuration selects is written out: a preflight
  \<open>OPTIONS\<close> request is answered 204 by \<^verbatim>\<open>cors\<close>, every other response carries
  \<^verbatim>\<open>Access-Control-Allow-Origin: *\<close>; \<^verbatim>\<open>{x}\<close> becomes the Express parameter
  \<^verbatim>\<open>:x\<close>, which matches one non-empty path segment and is percent-decoded
  (\<^verbatim>\<open>decodeURIComponent\<close>; a malformed escape is answered 400); literal segments
  match without regard to ASCII case and one trailing slash is allowed (Express's
  defaults); \<open>HEAD\<close> is served by the \<open>GET\<close> handler without a body; any other
  method or path is answered 404. Strings are byte strings: a percent escape decodes to
  one byte, so valid UTF-8 decodes as in JavaScript (the check that the bytes form valid
  UTF-8 is not modelled). A request carries its raw query string, the text after
  \<open>?\<close> (empty when there is none); the handlers see \<^verbatim>\<open>req.query.ref\<close> as
  \<open>query_ref\<close> of theory \<open>Query\<close> parses it.
  The API document \<^verbatim>\<open>api.json\<close> is not in the repository: the model takes it to
  set no \<^verbatim>\<open>basePath\<close> and to document no parameters, so that the paths are
  mounted at the root and no request validation runs before the handlers.
\<close>

subsection \<open>Requests and responses\<close>

datatype http_method = GET | HEAD | OPTIONS | OtherMethod string

record http_request =
  rq_method :: http_method
  rq_path :: string
  rq_query :: string

datatype app_body = JsonBody json_body | ApiDocBody | NotFoundPage | BadRequestPage | NoBody

record app_response =
  ar_status :: nat
  ar_cors :: "(string \<times> string) list"
  ar_body :: app_body

datatype app_outcome = AppRespond app_response | AppAwait pending

subsection \<open>Paths and routes\<close>

text \<open>\<open>path_segments\<close> is JavaScript's \<^verbatim>\<open>split('/')\<close>.\<close>

abbreviation path_segments :: "string \<Rightarrow> string list" where
  "path_segments \<equiv> js_split CHR ''/''"

datatype seg = Lit string | Param string

definition parse_seg :: "string \<Rightarrow> seg" where
  "parse_seg s =
     (if 2 \<le> length s \<and> hd s = CHR ''{'' \<and> last s = CHR ''}'' then Param (butlast (tl s)) else Lit s)"

definition parse_template :: "string \<Rightarrow> seg list" where
  "parse_template p = map parse_seg (tl (path_segments p))"

definition lower_ascii :: "char \<Rightarrow> char" where
  "lower_ascii c = (if (65::nat) \<le> of_char c \<and> of_char c \<le> (90::nat) then char_of (of_char c + (32::nat)) else c)"

fun match_segs :: "seg list \<Rightarrow> string list \<Rightarrow> (string \<times> string) list option" where
  "match_segs [] [] = Some []"
| "match_segs (Lit l # ts) (x # xs) =
     (if map lower_ascii l = map lower_ascii x then match_segs ts xs else None)"
| "match_segs (Param n # ts) (x # xs) =
     (if x = [] then None else map_option ((#) (n, x)) (match_segs ts xs))"
| "match_segs _ _ = None"

fun decode_params :: "(string \<times> string) list \<Rightarrow> (string \<times> string) list option" where
  "decode_params [] = Some []"
| "decode_params ((n, v) # ps) =
     (case uri_decode v of
        None \<Rightarrow> None
      | Some v' \<Rightarrow> map_option ((#) (n, v')) (decode_params ps))"

datatype handler_module = ResolveModule | PathderefModule | ApiDocsModule

definition openapi_paths :: "(string \<times> handler_module) list" where
  "openapi_paths =
     [(''/{service}/{user}/{repo}/resolve'', ResolveModule),
      (''/{service}/{user}/{repo}/pathderef'', PathderefModule)]"

text \<open>The routes the application ends up with: the configured paths, then the route
  that serves the API document at its default path.\<close>

definition api_docs_path :: string where
  "api_docs_path = ''/api-docs''"

definition app_routes :: "(string \<times> handler_module) list" where
  "app_routes = openapi_paths @ [(api_docs_path, ApiDocsModule)]"

datatype route_result = NoRoute | BadParam | Routed handler_module "(string \<times> string) list"

text \<open>The segments a request path is matched on: the path must start with a slash, and
  one trailing slash is dropped (non-strict routing).\<close>

definition request_segments :: "string \<Rightarrow> string list option" where
  "request_segments p =
     (case path_segments p of
        [] # segs \<Rightarrow> Some (if segs \<noteq> [] \<and> last segs = [] then butlast segs else segs)
      | _ \<Rightarrow> None)"

fun route_in :: "(string \<times> handler_module) list \<Rightarrow> string list \<Rightarrow> route_result" where
  "route_in [] segs = NoRoute"
| "route_in ((t, m) # rs) segs =
     (case match_segs (parse_template t) segs of
        None \<Rightarrow> route_in rs segs
      | Some ps \<Rightarrow> (case decode_params ps of None \<Rightarrow> BadParam | Some ps' \<Rightarrow> Routed m ps'))"

definition app_route :: "string \<Rightarrow> route_result" where
  "app_route p = (case request_segments p of None \<Rightarrow> NoRoute | Some segs \<Rightarrow> route_in app_routes segs)"

subsection \<open>The application\<close>

definition cors_allow_origin :: "(string \<times> string) list" where
  "cors_allow_origin = [(''Access-Control-Allow-Origin'', ''*'')]"

definition cors_preflight :: app_response where
  "cors_preflight =
     \<lparr>ar_status = 204,
      ar_cors = cors_allow_origin @ [(''Access-Control-Allow-Methods'', ''GET'')],
      ar_body = NoBody\<rparr>"

definition for_method :: "http_method \<Rightarrow> app_response \<Rightarrow> app_response" where
  "for_method m r = (if m = HEAD then r\<lparr>ar_body := NoBody\<rparr> else r)"

definition with_cors :: "http_response \<Rightarrow> app_response" where
  "with_cors r = \<lparr>ar_status = status r, ar_cors = cors_allow_origin, ar_body = JsonBody (body r)\<rparr>"

definition param :: "(string \<times> string) list \<Rightarrow> string \<Rightarrow> string" where
  "param ps n = (case map_of ps n of Some v \<Rightarrow> v | None \<Rightarrow> [])"

definition request_of :: "(string \<times> string) list \<Rightarrow> http_request \<Rightarrow> resolve_req" where
  "request_of ps rq =
     \<lparr>req_service = param ps ''service'', req_user = param ps ''user'', req_repo = param ps ''repo'',
      req_ref = query_ref (rq_query rq)\<rparr>"

definition app_handle :: "time \<Rightarrow> http_request \<Rightarrow> ref_cache \<Rightarrow> app_outcome \<times> ref_cache" where
  "app_handle now rq c =
     (let m = rq_method rq in
      if m = OPTIONS then (AppRespond cors_preflight, c)
      else
        (case app_route (rq_path rq) of
           NoRoute \<Rightarrow> (AppRespond (for_method m \<lparr>ar_status = 404, ar_cors = cors_allow_origin, ar_body = NotFoundPage\<rparr>), c)
         | BadParam \<Rightarrow> (AppRespond (for_method m \<lparr>ar_status = 400, ar_cors = cors_allow_origin, ar_body = BadRequestPage\<rparr>), c)
         | Routed h ps \<Rightarrow>
             if m \<noteq> GET \<and> m \<noteq> HEAD
             then (AppRespond (for_method m \<lparr>ar_status = 404, ar_cors = cors_allow_origin, ar_body = NotFoundPage\<rparr>), c)
             else
               (case h of
                  ResolveModule \<Rightarrow>
                    (case resolve_get now (request_of ps rq) c of
                       (Respond r, c') \<Rightarrow> (AppRespond (for_method m (with_cors r)), c')
                     | (Await p, c') \<Rightarrow> (AppAwait p, c'))
                | PathderefModule \<Rightarrow>
                    (AppRespond (for_method m (with_cors
                       (pathderef_get (param ps ''service'') (param ps ''user'') (param ps ''repo'') (query_ref (rq_query rq))))), c)
                | ApiDocsModule \<Rightarrow>
                    (AppRespond (for_method m \<lparr>ar_status = 200, ar_cors = cors_allow_origin, ar_body = ApiDocBody\<rparr>), c))))"

text \<open>The callback of a request the application left waiting for GitHub writes its
  response through the same \<^verbatim>\<open>res\<close>, with the CORS header already set.\<close>

definition app_callback :: "time \<Rightarrow> http_method \<Rightarrow> pending \<Rightarrow> api_result \<Rightarrow> ref_cache \<Rightarrow> app_response \<times> ref_cache" where
  "app_callback now m p res c = (let (r, c') = resolve_cb now p res c in (for_method m (with_cors r), c'))"

text \<open>A request and, when it waits for GitHub, its callback, with no other request in
  between: the application-level counterpart of \<open>resolve_sync\<close>.\<close>

definition app_sync ::
  "time \<Rightarrow> time \<Rightarrow> (gh_call \<Rightarrow> api_result) \<Rightarrow> http_request \<Rightarrow> ref_cache \<Rightarrow> app_response \<times> ref_cache" where
  "app_sync t1 t2 gh rq c =
     (case app_handle t1 rq c of
        (AppRespond r, c') \<Rightarrow> (r, c')
      | (AppAwait p, c') \<Rightarrow> app_callback t2 (rq_method rq) p (gh (pend_call p)) c')"

subsection \<open>Requests as a client writes them\<close>

definition resolve_path :: "string \<Rightarrow> string \<Rightarrow> string \<Rightarrow> string" where
  "resolve_path s u r = ''/'' @ uri_encode s @ ''/'' @ uri_encode u @ ''/'' @ uri_encode r @ ''/resolve''"


subsection \<open>Well-formed responses\<close>

text \<open>The status of a response agrees with its body: a commit id only with 200, an
  error object or the not-found page only with 404, the error page only with 400; a
  response without body is a preflight or the answer to \<open>HEAD\<close>.\<close>

fun body_fits :: "nat \<Rightarrow> app_body \<Rightarrow> bool" where
  "body_fits st (JsonBody (RefBody v)) \<longleftrightarrow> st = 200"
| "body_fits st (JsonBody (ErrBody e)) \<longleftrightarrow> st = 404"
| "body_fits st ApiDocBody \<longleftrightarrow> st = 200"
| "body_fits st NotFoundPage \<longleftrightarrow> st = 404"
| "body_fits st BadRequestPage \<longleftrightarrow> st = 400"
| "body_fits st NoBody \<longleftrightarrow> True"

definition app_response_ok :: "app_response \<Rightarrow> bool" where
  "app_response_ok r \<longleftrightarrow>
     ar_status r \<in> {200, 204, 400, 404} \<and> body_fits (ar_status r) (ar_body r) \<and>
     (''Access-Control-Allow-Origin'', ''*'') \<in> set (ar_cors r)"

subsection \<open>Routing\<close>

lemma path_segments_4:
  assumes "CHR ''/'' \<notin> set a" "CHR ''/'' \<notin> set b" "CHR ''/'' \<notin> set d" "CHR ''/'' \<notin> set e"
  shows "path_segments (''/'' @ a @ ''/'' @ b @ ''/'' @ d @ ''/'' @ e) = [[], a, b, d, e]"
  using assms by (simp add: js_split_append_sep js_split_nosep)

lemma openapi_templates:
  "parse_template ''/{service}/{user}/{repo}/resolve'' = [Param ''service'', Param ''user'', Param ''repo'', Lit ''resolve'']"
  "parse_template ''/{service}/{user}/{repo}/pathderef'' = [Param ''service'', Param ''user'', Param ''repo'', Lit ''pathderef'']"
  "parse_template api_docs_path = [Lit ''api-docs'']"
  by (simp_all add: parse_template_def parse_seg_def api_docs_path_def)

lemma app_route_segments:
  assumes "CHR ''/'' \<notin> set a" "CHR ''/'' \<notin> set b" "CHR ''/'' \<notin> set d" "a \<noteq> []" "b \<noteq> []" "d \<noteq> []"
  shows "app_route (''/'' @ a @ ''/'' @ b @ ''/'' @ d @ ''/resolve'') =
           (case decode_params [(''service'', a), (''user'', b), (''repo'', d)] of
              None \<Rightarrow> BadParam | Some ps \<Rightarrow> Routed ResolveModule ps)"
proof -
  have "path_segments (''/'' @ a @ ''/'' @ b @ ''/'' @ d @ ''/'' @ ''resolve'') = [[], a, b, d, ''resolve'']"
    using assms by (intro path_segments_4) simp_all
  then show ?thesis
    using assms by (simp add: app_route_def request_segments_def app_routes_def openapi_paths_def openapi_templates)
qed

lemma app_route_resolve_path:
  "s \<noteq> [] \<Longrightarrow> u \<noteq> [] \<Longrightarrow> r \<noteq> [] \<Longrightarrow>
   app_route (resolve_path s u r) = Routed ResolveModule [(''service'', s), (''user'', u), (''repo'', r)]"
  using app_route_segments [OF slash_notin_uri_encode slash_notin_uri_encode slash_notin_uri_encode]
  by (simp add: resolve_path_def uri_decode_encode)

lemma app_sync_resolve_path:
  assumes "s \<noteq> []" and "u \<noteq> []" and "r \<noteq> []"
  shows "app_sync t1 t2 gh \<lparr>rq_method = GET, rq_path = resolve_path s u r, rq_query = q\<rparr> c =
           (let (x, c') = resolve_sync t1 t2 gh \<lparr>req_service = s, req_user = u, req_repo = r, req_ref = query_ref q\<rparr> c
            in (with_cors x, c'))"
  using app_route_resolve_path [OF assms]
  by (simp add: app_sync_def app_handle_def request_of_def param_def for_method_def resolve_sync_def
                app_callback_def split: prod.splits get_outcome.splits)

text \<open>The API document is served at \<^verbatim>\<open>/api-docs\<close>, in any letter case and with
  or without a trailing slash, whatever the query, and the cache is untouched.\<close>

lemma app_api_docs:
  "app_handle now \<lparr>rq_method = GET, rq_path = ''/API-Docs/'', rq_query = q\<rparr> c =
     (AppRespond \<lparr>ar_status = 200, ar_cors = cors_allow_origin, ar_body = ApiDocBody\<rparr>, c)"
  by (simp add: app_handle_def app_route_def request_segments_def app_routes_def openapi_paths_def
                openapi_templates for_method_def lower_ascii_def char_of_def bit_0)

subsection \<open>Responses of the handlers\<close>

lemma resolve_get_Respond_cases:
  "fst (resolve_get now q c) = Respond x \<Longrightarrow>
   x = unknown_service \<or> x = unknown_repository \<or> (\<exists>v. x = resolve_ref v)"
  by (auto simp: resolve_get_eq Let_def split: if_splits option.splits)

lemma resolve_get_Respond_cases':
  "resolve_get now q c = (Respond x, c') \<Longrightarrow>
   x = unknown_service \<or> x = unknown_repository \<or> (\<exists>v. x = resolve_ref v)"
  by (metis fst_conv resolve_get_Respond_cases)

lemma resolve_cb_cases:
  "fst (resolve_cb now p res c) = unknown_repository \<or> (\<exists>v. fst (resolve_cb now p res c) = resolve_ref v)"
  by (auto simp: resolve_cb_eq split: resolution.splits)

lemma app_response_ok_handler:
  "x = unknown_service \<or> x = unknown_repository \<or> (\<exists>v. x = resolve_ref v) \<Longrightarrow>
   app_response_ok (for_method m (with_cors x))"
  by (auto simp: app_response_ok_def for_method_def with_cors_def cors_allow_origin_def
                 unknown_service_def unknown_repository_def resolve_ref_def)

lemma app_response_ok_pages:
  "app_response_ok (for_method m \<lparr>ar_status = 404, ar_cors = cors_allow_origin, ar_body = NotFoundPage\<rparr>)"
  "app_response_ok (for_method m \<lparr>ar_status = 400, ar_cors = cors_allow_origin, ar_body = BadRequestPage\<rparr>)"
  "app_response_ok cors_preflight"
  "app_response_ok (for_method m \<lparr>ar_status = 200, ar_cors = cors_allow_origin, ar_body = ApiDocBody\<rparr>)"
  by (simp_all add: app_response_ok_def for_method_def cors_allow_origin_def cors_preflight_def)


subsection \<open>Properties of the application\<close>

text \<open>C25: a path built by a client with \<^verbatim>\<open>encodeURIComponent\<close> from non-empty
  service, user and repository names is routed to the module \<^verbatim>\<open>resolve\<close> with
  exactly those names as parameters, whatever bytes they contain (slashes included).\<close>

theorem app_route_roundtrip:
  assumes "s \<noteq> []" and "u \<noteq> []" and "r \<noteq> []"
  shows "app_route (resolve_path s u r) = Routed ResolveModule [(''service'', s), (''user'', u), (''repo'', r)]"
  by (rule app_route_resolve_path [OF assms])

theorem app_route_roundtrip_witness:
  "app_route (resolve_path ''gh'' ''octo/x'' ''hello world'') =
     Routed ResolveModule [(''service'', ''gh''), (''user'', ''octo/x''), (''repo'', ''hello world'')]"
  by (rule app_route_roundtrip) simp_all

text \<open>C26: a \<open>GET\<close> of such a path is exactly the resolver's handler
  \<^verbatim>\<open>resolve.get\<close> on those parameters and the query's \<^verbatim>\<open>ref\<close> as the query
  parser reads it: its answer with the CORS
  header added, or the same call to GitHub, and the same cache afterwards.\<close>

theorem app_get_resolve:
  assumes "s \<noteq> []" and "u \<noteq> []" and "r \<noteq> []"
  shows "app_handle now \<lparr>rq_method = GET, rq_path = resolve_path s u r, rq_query = q\<rparr> c =
           (case resolve_get now \<lparr>req_service = s, req_user = u, req_repo = r, req_ref = query_ref q\<rparr> c of
              (Respond x, c') \<Rightarrow> (AppRespond (with_cors x), c')
            | (Await p, c') \<Rightarrow> (AppAwait p, c'))"
proof -
  have rt: "app_route (resolve_path s u r) = Routed ResolveModule [(''service'', s), (''user'', u), (''repo'', r)]"
    by (rule app_route_resolve_path [OF assms])
  show ?thesis
    by (simp add: app_handle_def rt request_of_def param_def for_method_def split: prod.splits get_outcome.splits)
qed

theorem app_get_resolve_witness:
  "app_handle 0 \<lparr>rq_method = GET, rq_path = resolve_path ''gh'' ''octo'' ''hello-world'', rq_query = []\<rparr> ref_cache_init =
     (AppRespond (with_cors unknown_repository), ref_cache_init)"
proof -
  have "app_handle 0 \<lparr>rq_method = GET, rq_path = resolve_path ''gh'' ''octo'' ''hello-world'', rq_query = []\<rparr> ref_cache_init =
          (case resolve_get 0 \<lparr>req_service = ''gh'', req_user = ''octo'', req_repo = ''hello-world'', req_ref = query_ref []\<rparr> ref_cache_init of
             (Respond x, c') \<Rightarrow> (AppRespond (with_cors x), c')
           | (Await p, c') \<Rightarrow> (AppAwait p, c'))"
    by (rule app_get_resolve) simp_all
  then show ?thesis by (simp add: resolve_get_def query_ref_eval)
qed

text \<open>C27: a request whose service, user or repository segment holds a malformed
  percent escape is refused with 400 before any handler runs: the cache is unchanged and
  GitHub is not called.\<close>

theorem app_bad_escape:
  assumes "CHR ''/'' \<notin> set s" and "CHR ''/'' \<notin> set u" and "CHR ''/'' \<notin> set r"
    and "s \<noteq> []" and "u \<noteq> []" and "r \<noteq> []"
    and "uri_decode s = None \<or> uri_decode u = None \<or> uri_decode r = None"
    and "m \<noteq> OPTIONS"
  shows "app_handle now \<lparr>rq_method = m, rq_path = ''/'' @ s @ ''/'' @ u @ ''/'' @ r @ ''/resolve'', rq_query = q\<rparr> c =
           (AppRespond (for_method m \<lparr>ar_status = 400, ar_cors = cors_allow_origin, ar_body = BadRequestPage\<rparr>), c)"
proof -
  have "decode_params [(''service'', s), (''user'', u), (''repo'', r)] = None"
    using assms(7) by (auto split: option.splits)
  with app_route_segments [OF assms(1-6)] assms(8) show ?thesis
    by (simp add: app_handle_def)
qed

theorem app_bad_escape_witness:
  "app_handle 0 \<lparr>rq_method = GET, rq_path = ''/gh/octo%2/hello-world/resolve'', rq_query = ''ref=main''\<rparr> ref_cache_init =
     (AppRespond (for_method GET \<lparr>ar_status = 400, ar_cors = cors_allow_origin, ar_body = BadRequestPage\<rparr>), ref_cache_init)"
  using app_bad_escape [of "''gh''" "''octo%2''" "''hello-world''" GET 0 "''ref=main''" ref_cache_init]
  by (simp add: hex_val_def)

text \<open>C28: every response the application writes, at once or from a GitHub callback,
  is well-formed: its status is 200, 204, 400 or 404 and agrees with its body, and it
  carries \<^verbatim>\<open>Access-Control-Allow-Origin: *\<close>.\<close>

theorem app_response_wellformed:
  "(\<forall>r. fst (app_handle now rq c) = AppRespond r \<longrightarrow> app_response_ok r) \<and>
   app_response_ok (fst (app_callback now m p res c))"
proof (intro conjI allI impI)
  fix r assume h: "fst (app_handle now rq c) = AppRespond r"
  show "app_response_ok r"
  proof (cases "rq_method rq = OPTIONS")
    case True
    with h show ?thesis by (simp add: app_handle_def app_response_ok_pages)
  next
    case False
    with h show ?thesis
      by (auto simp: app_handle_def Let_def app_response_ok_pages pathderef_get_def
               intro: app_response_ok_handler dest: resolve_get_Respond_cases'
               split: route_result.splits if_splits handler_module.splits prod.splits get_outcome.splits)
  qed
next
  show "app_response_ok (fst (app_callback now m p res c))"
    using resolve_cb_cases [of now p res c] app_response_ok_handler [of "fst (resolve_cb now p res c)" m]
    by (auto simp: app_callback_def split_def)
qed

theorem app_response_wellformed_witness:
  "app_response_ok (for_method HEAD (with_cors unknown_service)) \<and>
   app_response_ok (fst (app_callback 0 GET
     \<lparr>pend_user = ''octo'', pend_repo = ''hello-world'', pend_origref = JStr ''main'',
      pend_call = gh_get_reference ''octo'' ''hello-world'' (gh_reference (JStr ''main''))\<rparr> ApiError ref_cache_init))"
proof -
  have h: "fst (app_handle 0 \<lparr>rq_method = HEAD, rq_path = ''/GH/octo/hello-world/RESOLVE/'', rq_query = ''ref=main''\<rparr>
              ref_cache_init) = AppRespond (for_method HEAD (with_cors unknown_service))"
    by code_simp
  show ?thesis
    using app_response_wellformed [of 0 "\<lparr>rq_method = HEAD, rq_path = ''/GH/octo/hello-world/RESOLVE/'', rq_query = ''ref=main''\<rparr>"
        ref_cache_init GET "\<lparr>pend_user = ''octo'', pend_repo = ''hello-world'', pend_origref = JStr ''main'',
      pend_call = gh_get_reference ''octo'' ''hello-world'' (gh_reference (JStr ''main''))\<rparr>" ApiError] h
    by simp
qed


text \<open>C29: the key collision is reachable over HTTP, because Express decodes \<open>%2F\<close> in
  a path parameter to a slash. After \<^verbatim>\<open>GET /gh/octo/hello/resolve?ref=world%2Fmain\<close>
  was resolved to commit \<open>abc\<close>, \<^verbatim>\<open>GET /gh/octo%2Fhello/world/resolve?ref=main\<close>
  (user \<open>octo/hello\<close>, repository \<open>world\<close>) is answered 200 with \<open>abc\<close> from the
  cache, although GitHub was never asked about that repository.\<close>

theorem app_encoded_slash_collision:
  "fst (app_handle 0 \<lparr>rq_method = GET, rq_path = ''/gh/octo/hello/resolve'', rq_query = ''ref=world%2Fmain''\<rparr> ref_cache_init) =
     AppAwait \<lparr>pend_user = ''octo'', pend_repo = ''hello'', pend_origref = JStr ''world/main'',
               pend_call = \<lparr>call_owner = ''octo'', call_repo = ''hello'', call_ref = ''heads/world/main''\<rparr>\<rparr> \<and>
   fst (app_handle 200 \<lparr>rq_method = GET, rq_path = ''/gh/octo%2Fhello/world/resolve'', rq_query = ''ref=main''\<rparr>
     (snd (app_callback 100 GET
        \<lparr>pend_user = ''octo'', pend_repo = ''hello'', pend_origref = JStr ''world/main'',
         pend_call = \<lparr>call_owner = ''octo'', call_repo = ''hello'', call_ref = ''heads/world/main''\<rparr>\<rparr>
        (ApiResult (Some (RefData (Some (GitObject ''commit'' ''abc'')))))
        (snd (app_handle 0 \<lparr>rq_method = GET, rq_path = ''/gh/octo/hello/resolve'', rq_query = ''ref=world%2Fmain''\<rparr>
                ref_cache_init))))) =
     AppRespond (with_cors (resolve_ref ''abc''))"
  by code_simp

end
