(* ===== verification/Server.thy ===== *)
theory Server
  imports Resolver
begin

text \<open>
  The server as a whole (\<^verbatim>\<open>src/index.js\<close>): one process-wide cache, a clock, and
  any number of requests in flight. Node runs each handler segment to completion, so a
  run is a sequence of atomic events: the clock advances, a request arrives and
  \<open>resolve_get\<close> runs on the shared cache (answering at once or leaving a GitHub
  call in flight), or the callback of one in-flight call runs with GitHub's answer.
  Callbacks may come back in any order and GitHub may answer anything; the answers
  are recorded, with the time they arrived, in a log against which the cache and the
  responses are judged. Each answer is recorded with the time it was given.
\<close>

record answer =
  ans_id :: nat
  ans_req :: resolve_req
  ans_resp :: http_response
  ans_time :: time

record gh_exchange =
  ex_time :: time
  ex_call :: gh_call
  ex_result :: api_result

record server =
  clock :: time
  cache :: ref_cache
  inflight :: "(nat \<times> resolve_req \<times> pending) list"
  answered :: "answer list"
  gh_log :: "gh_exchange list"
  next_id :: nat

definition server_init :: server where
  "server_init = \<lparr>clock = 0, cache = ref_cache_init, inflight = [], answered = [], gh_log = [], next_id = 0\<rparr>"

definition arrive :: "resolve_req \<Rightarrow> server \<Rightarrow> server" where
  "arrive q s =
     (case resolve_get (clock s) q (cache s) of
        (Respond r, c') \<Rightarrow>
          s\<lparr>cache := c', answered := answered s @ [\<lparr>ans_id = next_id s, ans_req = q, ans_resp = r, ans_time = clock s\<rparr>],
                next_id := Suc (next_id s)\<rparr>
      | (Await p, c') \<Rightarrow>
          s\<lparr>cache := c', inflight := inflight s @ [(next_id s, q, p)], next_id := Suc (next_id s)\<rparr>)"

definition complete :: "nat \<Rightarrow> api_result \<Rightarrow> server \<Rightarrow> server option" where
  "complete i res s =
     (case map_of (inflight s) i of
        None \<Rightarrow> None
      | Some (q, p) \<Rightarrow>
          (let (r, c') = resolve_cb (clock s) p res (cache s)
           in Some (s\<lparr>cache := c', inflight := alist_del i (inflight s),
                      answered := answered s @ [\<lparr>ans_id = i, ans_req = q, ans_resp = r, ans_time = clock s\<rparr>],
                      gh_log := gh_log s @ [\<lparr>ex_time = clock s, ex_call = pend_call p, ex_result = res\<rparr>]\<rparr>)))"

datatype event = Tick nat | Arrive resolve_req | Reply nat api_result

fun server_step :: "server \<Rightarrow> event \<Rightarrow> server option" where
  "server_step s (Tick d) = Some (s\<lparr>clock := clock s + d\<rparr>)"
| "server_step s (Arrive q) = Some (arrive q s)"
| "server_step s (Reply i res) = complete i res s"

fun server_run :: "server \<Rightarrow> event list \<Rightarrow> server option" where
  "server_run s [] = Some s"
| "server_run s (e # es) = (case server_step s e of None \<Rightarrow> None | Some s' \<Rightarrow> server_run s' es)"

inductive reachable :: "server \<Rightarrow> bool" where
  init: "reachable server_init"
| step: "reachable s \<Longrightarrow> server_step s e = Some s' \<Longrightarrow> reachable s'"

subsection \<open>The invariant\<close>

text \<open>
  A commit id \<open>v\<close> under key \<open>k\<close> is justified at time \<open>t\<close> when GitHub's
  answer that arrived at \<open>t\<close> was a commit with that id for an owner, repository and
  \<open>heads/<ref>\<close> whose key is \<open>k\<close>.
\<close>

definition justified :: "gh_exchange list \<Rightarrow> time \<Rightarrow> string \<Rightarrow> string \<Rightarrow> bool" where
  "justified log t k v \<longleftrightarrow>
     (\<exists>e \<in> set log. ex_time e = t \<and> gh_classify (ex_result e) = Resolved v \<and>
        take 6 (call_ref (ex_call e)) = ''heads/'' \<and>
        k = ref_cache_getkey ''gh'' (call_owner (ex_call e)) (call_repo (ex_call e)) (drop 6 (call_ref (ex_call e))))"

definition pending_ok :: "resolve_req \<Rightarrow> pending \<Rightarrow> bool" where
  "pending_ok q p \<longleftrightarrow>
     req_service q = ''gh'' \<and> req_ref q = Some (pend_origref p) \<and>
     pend_user p = req_user q \<and> pend_repo p = req_repo q \<and>
     pend_call p = gh_get_reference (req_user q) (req_repo q) (gh_reference (pend_origref p))"

definition ids_ok :: "server \<Rightarrow> bool" where
  "ids_ok s \<longleftrightarrow>
     distinct (map fst (inflight s) @ map ans_id (answered s)) \<and>
     set (map fst (inflight s) @ map ans_id (answered s)) \<subseteq> {..<next_id s}"

text \<open>
  Every cache entry was written no later than now, at the arrival of a GitHub answer
  that justifies it; every 200 answer is justified by a GitHub answer that arrived less
  than 5000 ms before it was given; every logged GitHub call is the call of an answered
  request.
\<close>

definition cache_sound :: "server \<Rightarrow> bool" where
  "cache_sound s \<longleftrightarrow>
     (\<forall>e \<in> set (lru_list (cache s)).
        hit_now (snd e) \<le> clock s \<and> justified (gh_log s) (hit_now (snd e)) (fst e) (hit_value (snd e)))"

definition answers_sound :: "server \<Rightarrow> bool" where
  "answers_sound s \<longleftrightarrow>
     (\<forall>a \<in> set (answered s). ans_time a \<le> clock s \<and>
        (\<forall>v. ans_resp a = resolve_ref v \<longrightarrow>
          (\<exists>h tw. req_ref (ans_req a) = Some h \<and> tw \<le> ans_time a \<and> ans_time a - tw < 1000 * 5 \<and>
             justified (gh_log s) tw
               (ref_cache_getkey (req_service (ans_req a)) (req_user (ans_req a)) (req_repo (ans_req a)) (js_str h)) v)))"

definition log_ok :: "server \<Rightarrow> bool" where
  "log_ok s \<longleftrightarrow>
     (\<forall>e \<in> set (gh_log s). \<exists>a \<in> set (answered s). \<exists>h.
        req_service (ans_req a) = ''gh'' \<and> req_ref (ans_req a) = Some h \<and>
        ex_call e = gh_get_reference (req_user (ans_req a)) (req_repo (ans_req a)) (gh_reference h))"

definition server_inv :: "server \<Rightarrow> bool" where
  "server_inv s \<longleftrightarrow>
     resolver_inv (cache s) \<and> lru_max (cache s) = 5000 \<and> lru_max_age (cache s) = 5000 \<and>
     ids_ok s \<and> (\<forall>x \<in> set (inflight s). pending_ok (fst (snd x)) (snd (snd x))) \<and>
     cache_sound s \<and> answers_sound s \<and> log_ok s"

text \<open>
  Fixtures of the example runs below: the request of the specification's example, a
  GitHub answer holding a commit, and the request shape for which keys are injective.
\<close>

definition q_main :: resolve_req where
  "q_main = \<lparr>req_service = ''gh'', req_user = ''octo'', req_repo = ''hello-world'', req_ref = Some (JStr ''main'')\<rparr>"

definition commit_reply :: "string \<Rightarrow> api_result" where
  "commit_reply sha = ApiResult (Some (RefData (Some (GitObject ''commit'' sha))))"

definition req_slash_free :: "resolve_req \<Rightarrow> bool" where
  "req_slash_free q \<longleftrightarrow>
     CHR ''/'' \<notin> set (req_service q) \<and> CHR ''/'' \<notin> set (req_user q) \<and> CHR ''/'' \<notin> set (req_repo q)"

subsection \<open>Preservation of the invariant\<close>

lemma justified_append: "justified log t k v \<Longrightarrow> justified (log @ xs) t k v"
  by (auto simp: justified_def)

lemma justified_reply:
  assumes "pending_ok q p" and "gh_classify res = Resolved v"
  shows "justified (log @ [\<lparr>ex_time = t, ex_call = pend_call p, ex_result = res\<rparr>]) t
           (ref_cache_getkey ''gh'' (req_user q) (req_repo q) (js_str (pend_origref p))) v"
  using assms by (auto simp: justified_def pending_ok_def gh_get_reference_def gh_reference_def)

lemma map_fst_alist_del: "map fst (alist_del i xs) = filter (\<lambda>j. j \<noteq> i) (map fst xs)"
  by (induction xs) (auto simp: alist_del_def)

lemma cache_read_entries:
  "e \<in> set (lru_list (snd (ref_cache_read now s u r h c))) \<Longrightarrow> e \<in> set (lru_list c)"
  using lru_get_entries [of now "ref_cache_getkey s u r (js_str h)" c] by (auto simp: ref_cache_read_eq split: if_splits)

lemma cache_enter_entries:
  "e \<in> set (lru_list (ref_cache_enter now s u r h v c)) \<Longrightarrow>
   e \<in> set (lru_list c) \<or> e = (ref_cache_getkey s u r (js_str h), \<lparr>hit_value = v, hit_now = now\<rparr>)"
  using lru_set_entries [of now "ref_cache_getkey s u r (js_str h)" v c] by (auto simp: ref_cache_enter_def split: if_splits)

lemma cache_read_hit_entry:
  "fst (ref_cache_read now s u r h c) = Some v \<Longrightarrow>
   \<exists>x. (ref_cache_getkey s u r (js_str h), x) \<in> set (lru_list c) \<and> hit_value x = v \<and> \<not> is_stale c now x"
proof -
  assume "fst (ref_cache_read now s u r h c) = Some v"
  then have "fst (lru_get now (ref_cache_getkey s u r (js_str h)) c) = Some v" by (auto dest: ref_cache_read_Some)
  then obtain x where "map_of (lru_list c) (ref_cache_getkey s u r (js_str h)) = Some x" "hit_value x = v"
      "\<not> is_stale c now x"
    by (auto dest: lru_get_hit_fresh)
  then show ?thesis by (auto dest: map_of_SomeD)
qed

lemma resolve_get_entries:
  "e \<in> set (lru_list (snd (resolve_get now q c))) \<Longrightarrow> e \<in> set (lru_list c)"
  by (auto simp: resolve_get_eq Let_def split: if_splits option.splits dest: cache_read_entries)

lemma resolve_cb_entries:
  "e \<in> set (lru_list (snd (resolve_cb now p res c))) \<Longrightarrow>
   e \<in> set (lru_list c) \<or>
   (\<exists>v. gh_classify res = Resolved v \<and>
        e = (ref_cache_getkey ''gh'' (pend_user p) (pend_repo p) (js_str (pend_origref p)), \<lparr>hit_value = v, hit_now = now\<rparr>))"
  by (auto simp: resolve_cb_eq split: resolution.splits dest: cache_enter_entries)

lemma resolve_get_Respond_ref:
  "fst (resolve_get now q c) = Respond (resolve_ref v) \<Longrightarrow>
   \<exists>h. req_ref q = Some h \<and> fst (ref_cache_read now (req_service q) (req_user q) (req_repo q) h c) = Some v"
  by (auto simp: resolve_get_eq Let_def jsv_truthy_opt_iff split: if_splits option.splits)

lemma resolve_cb_ref:
  "fst (resolve_cb now p res c) = resolve_ref v \<Longrightarrow> gh_classify res = Resolved v"
  by (auto simp: resolve_cb_eq split: resolution.splits)

lemma arrive_cases:
  "(\<exists>r. fst (resolve_get (clock s) q (cache s)) = Respond r \<and>
        arrive q s = s\<lparr>cache := snd (resolve_get (clock s) q (cache s)),
                       answered := answered s @ [\<lparr>ans_id = next_id s, ans_req = q, ans_resp = r, ans_time = clock s\<rparr>],
                       next_id := Suc (next_id s)\<rparr>) \<or>
   (\<exists>p. fst (resolve_get (clock s) q (cache s)) = Await p \<and>
        arrive q s = s\<lparr>cache := snd (resolve_get (clock s) q (cache s)),
                       inflight := inflight s @ [(next_id s, q, p)], next_id := Suc (next_id s)\<rparr>)"
  by (cases "resolve_get (clock s) q (cache s)" rule: prod.exhaust)
     (auto simp: arrive_def split: get_outcome.splits)

lemma complete_Some:
  "complete i res s = Some s' \<Longrightarrow>
   \<exists>q p. map_of (inflight s) i = Some (q, p) \<and>
     s' = s\<lparr>cache := snd (resolve_cb (clock s) p res (cache s)), inflight := alist_del i (inflight s),
            answered := answered s @ [\<lparr>ans_id = i, ans_req = q, ans_resp = fst (resolve_cb (clock s) p res (cache s)),
                                       ans_time = clock s\<rparr>],
            gh_log := gh_log s @ [\<lparr>ex_time = clock s, ex_call = pend_call p, ex_result = res\<rparr>]\<rparr>"
  by (auto simp: complete_def split_def Let_def split: option.splits)

lemma ids_ok_answer_new:
  "ids_ok s \<Longrightarrow> ans_id a = next_id s \<Longrightarrow>
   ids_ok (s\<lparr>cache := c, answered := answered s @ [a], next_id := Suc (next_id s)\<rparr>)"
  by (auto simp: ids_ok_def)

lemma ids_ok_inflight_new:
  "ids_ok s \<Longrightarrow> ids_ok (s\<lparr>cache := c, inflight := inflight s @ [(next_id s, x)], next_id := Suc (next_id s)\<rparr>)"
  by (auto simp: ids_ok_def)

lemma server_inv_tick: "server_inv s \<Longrightarrow> clock s \<le> t \<Longrightarrow> server_inv (s\<lparr>clock := t\<rparr>)"
  by (force simp: server_inv_def ids_ok_def cache_sound_def answers_sound_def log_ok_def)

lemma server_inv_arrive:
  assumes inv: "server_inv s"
  shows "server_inv (arrive q s)"
proof -
  let ?c' = "snd (resolve_get (clock s) q (cache s))"
  let ?k = "\<lambda>h. ref_cache_getkey (req_service q) (req_user q) (req_repo q) (js_str h)"
  from inv have ri: "resolver_inv (cache s)" and cs: "cache_sound s" and an: "answers_sound s"
    and ids: "ids_ok s" and pend: "\<forall>x \<in> set (inflight s). pending_ok (fst (snd x)) (snd (snd x))"
    and lg: "log_ok s" and cfg: "lru_max (cache s) = 5000" "lru_max_age (cache s) = 5000"
    by (auto simp: server_inv_def)
  have ri': "resolver_inv ?c'" using ri by (rule resolver_inv_get)
  have cs': "\<forall>e \<in> set (lru_list ?c'). hit_now (snd e) \<le> clock s \<and>
               justified (gh_log s) (hit_now (snd e)) (fst e) (hit_value (snd e))"
    using cs by (auto simp: cache_sound_def dest: resolve_get_entries)
  consider (resp) r where "fst (resolve_get (clock s) q (cache s)) = Respond r"
      "arrive q s = s\<lparr>cache := ?c', answered := answered s @ [\<lparr>ans_id = next_id s, ans_req = q, ans_resp = r, ans_time = clock s\<rparr>],
                next_id := Suc (next_id s)\<rparr>"
    | (wait) p where "fst (resolve_get (clock s) q (cache s)) = Await p"
      "arrive q s = s\<lparr>cache := ?c', inflight := inflight s @ [(next_id s, q, p)], next_id := Suc (next_id s)\<rparr>"
    using arrive_cases [of s q] by blast
  then show ?thesis
  proof cases
    case (resp r)
    have "\<forall>v. r = resolve_ref v \<longrightarrow> (\<exists>h tw. req_ref q = Some h \<and> tw \<le> clock s \<and> clock s - tw < 1000 * 5 \<and>
            justified (gh_log s) tw (?k h) v)"
    proof (intro allI impI)
      fix v assume "r = resolve_ref v"
      with resp(1) obtain h where h: "req_ref q = Some h"
        and rd: "fst (ref_cache_read (clock s) (req_service q) (req_user q) (req_repo q) h (cache s)) = Some v"
        by (auto dest: resolve_get_Respond_ref)
      from cache_read_hit_entry [OF rd] obtain x where x: "(?k h, x) \<in> set (lru_list (cache s))"
        and xv: "hit_value x = v" and fresh: "\<not> is_stale (cache s) (clock s) x"
        by blast
      from cs x xv have "hit_now x \<le> clock s" "justified (gh_log s) (hit_now x) (?k h) v"
        by (auto simp: cache_sound_def)
      with h fresh cfg show "\<exists>h tw. req_ref q = Some h \<and> tw \<le> clock s \<and> clock s - tw < 1000 * 5 \<and>
            justified (gh_log s) tw (?k h) v"
        by (auto simp: is_stale_def)
    qed
    with resp(2) ri' cs' ids_ok_answer_new [OF ids] pend lg an cfg show ?thesis
      by (auto simp: server_inv_def cache_sound_def answers_sound_def log_ok_def)
  next
    case (wait p)
    have "pending_ok q p"
      using resolve_get_Await [of "clock s" q "cache s" p ?c'] wait(1)
      by (cases "resolve_get (clock s) q (cache s)") (auto simp: pending_ok_def)
    with wait(2) ri' cs' ids_ok_inflight_new [OF ids] pend lg an cfg show ?thesis
      by (auto simp: server_inv_def cache_sound_def answers_sound_def log_ok_def)
  qed
qed

lemma ids_ok_complete:
  assumes "ids_ok s" and "map_of (inflight s) i = Some x" and "ans_id a = i"
  shows "ids_ok (s\<lparr>cache := c, inflight := alist_del i (inflight s), answered := answered s @ [a],
                   gh_log := l\<rparr>)"
proof -
  from assms(2) have i: "i \<in> set (map fst (inflight s))"
    by (metis map_of_eq_None_iff option.distinct(1) set_map)
  with assms(1) have "i \<notin> set (map ans_id (answered s))" by (auto simp: ids_ok_def)
  with assms(1,3) i show ?thesis
    by (auto simp: ids_ok_def map_fst_alist_del distinct_map_filter)
qed

lemma server_inv_complete:
  assumes inv: "server_inv s" and c: "complete i res s = Some s'"
  shows "server_inv s'"
proof -
  let ?a = "\<lambda>q p. \<lparr>ans_id = i, ans_req = q, ans_resp = fst (resolve_cb (clock s) p res (cache s)), ans_time = clock s\<rparr>"
  let ?x = "\<lambda>p. \<lparr>ex_time = clock s, ex_call = pend_call p, ex_result = res\<rparr>"
  from complete_Some [OF c] obtain q p where m: "map_of (inflight s) i = Some (q, p)"
    and s': "s' = s\<lparr>cache := snd (resolve_cb (clock s) p res (cache s)), inflight := alist_del i (inflight s),
            answered := answered s @ [?a q p], gh_log := gh_log s @ [?x p]\<rparr>"
    by blast
  from inv have ri: "resolver_inv (cache s)" and cs: "cache_sound s" and an: "answers_sound s"
    and ids: "ids_ok s" and pend: "\<forall>x \<in> set (inflight s). pending_ok (fst (snd x)) (snd (snd x))"
    and lg: "log_ok s" and cfg: "lru_max (cache s) = 5000" "lru_max_age (cache s) = 5000"
    by (auto simp: server_inv_def)
  from m have mem: "(i, q, p) \<in> set (inflight s)" by (rule map_of_SomeD)
  with pend have po: "pending_ok q p" by force
  let ?log = "gh_log s @ [?x p]"
  let ?c' = "snd (resolve_cb (clock s) p res (cache s))"
  have ri': "resolver_inv ?c'" using ri by (rule resolver_inv_cb)
  have key: "ref_cache_getkey ''gh'' (pend_user p) (pend_repo p) (js_str (pend_origref p)) =
             ref_cache_getkey ''gh'' (req_user q) (req_repo q) (js_str (pend_origref p))"
    using po by (simp add: pending_ok_def)
  have cs': "\<forall>e \<in> set (lru_list ?c'). hit_now (snd e) \<le> clock s \<and>
               justified ?log (hit_now (snd e)) (fst e) (hit_value (snd e))"
  proof
    fix e assume "e \<in> set (lru_list ?c')"
    then consider "e \<in> set (lru_list (cache s))"
      | v where "gh_classify res = Resolved v"
          "e = (ref_cache_getkey ''gh'' (pend_user p) (pend_repo p) (js_str (pend_origref p)),
                \<lparr>hit_value = v, hit_now = clock s\<rparr>)"
      by (blast dest: resolve_cb_entries)
    then show "hit_now (snd e) \<le> clock s \<and> justified ?log (hit_now (snd e)) (fst e) (hit_value (snd e))"
    proof cases
      case 1
      with cs show ?thesis by (auto simp: cache_sound_def intro: justified_append)
    next
      case (2 v)
      with justified_reply [OF po, of res v "gh_log s" "clock s"] key show ?thesis by simp
    qed
  qed
  have an_new: "\<forall>v. fst (resolve_cb (clock s) p res (cache s)) = resolve_ref v \<longrightarrow>
      (\<exists>h tw. req_ref q = Some h \<and> tw \<le> clock s \<and> clock s - tw < 1000 * 5 \<and>
         justified ?log tw (ref_cache_getkey (req_service q) (req_user q) (req_repo q) (js_str h)) v)"
    using po justified_reply [OF po, of res _ "gh_log s" "clock s"]
    by (fastforce simp: pending_ok_def dest!: resolve_cb_ref)
  have an_old: "answers_sound (s\<lparr>gh_log := ?log\<rparr>)"
    using an unfolding answers_sound_def by simp (meson justified_append)
  have lg_new: "\<exists>h. req_service q = ''gh'' \<and> req_ref q = Some h \<and>
      pend_call p = gh_get_reference (req_user q) (req_repo q) (gh_reference h)"
    using po by (auto simp: pending_ok_def)
  have pend': "\<forall>x \<in> set (alist_del i (inflight s)). pending_ok (fst (snd x)) (snd (snd x))"
    using pend by (auto simp: alist_del_def)
  have ids': "ids_ok s'"
    unfolding s' by (rule ids_ok_complete [OF ids m]) simp
  show ?thesis
    unfolding server_inv_def
    using ri' cfg cs' an_old an_new lg lg_new pend' ids'
    by (auto simp: s' cache_sound_def answers_sound_def log_ok_def)
qed

lemma server_inv_init: "server_inv server_init"
proof -
  have c: "cache server_init = ref_cache_init" by (simp add: server_init_def)
  show ?thesis
    by (simp add: server_inv_def c resolver_inv_init ids_ok_def cache_sound_def
                  answers_sound_def log_ok_def) (simp add: server_init_def)
qed

lemma server_inv_step: "server_inv s \<Longrightarrow> server_step s e = Some s' \<Longrightarrow> server_inv s'"
  by (cases e) (auto intro: server_inv_tick server_inv_arrive server_inv_complete)

lemma reachable_server_inv: "reachable s \<Longrightarrow> server_inv s"
proof (induction rule: reachable.induct)
  case init
  show ?case by (rule server_inv_init)
next
  case (step s e s')
  then show ?case by (blast intro: server_inv_step)
qed

lemma server_run_reachable: "server_run s es = Some s' \<Longrightarrow> reachable s \<Longrightarrow> reachable s'"
proof (induction es arbitrary: s)
  case Nil
  then show ?case by simp
next
  case (Cons e es)
  then obtain s1 where s1: "server_step s e = Some s1" and r: "server_run s1 es = Some s'"
    by (auto split: option.splits)
  from Cons.prems(2) s1 have "reachable s1" by (rule reachable.step)
  with r show ?case by (rule Cons.IH)
qed

lemmas server_eval = server_init_def arrive_def complete_def resolve_get_eq resolve_cb_def ref_cache_read_eq
  ref_cache_enter_def ref_cache_getkey_def ref_cache_init_def lru_new_def lru_get_def lru_set_list
  is_stale_def alist_del_def gh_get_reference_def gh_reference_def Let_def q_main_def commit_reply_def

subsection \<open>Properties of the server\<close>

text \<open>C20: every entry of the shared cache, in every reachable state of the server, was
  written no later than now, at the moment GitHub returned that commit id for a request
  with that key.\<close>

theorem server_cache_sound:
  assumes "reachable s" and "(k, x) \<in> set (lru_list (cache s))"
  shows "hit_now x \<le> clock s \<and> justified (gh_log s) (hit_now x) k (hit_value x)"
  using reachable_server_inv [OF assms(1)] assms(2) by (force simp: server_inv_def cache_sound_def)

theorem server_cache_sound_witness:
  "hit_now \<lparr>hit_value = ''abc123'', hit_now = 100\<rparr> \<le>
     clock (the (server_run server_init [Arrive q_main, Tick 100, Reply 0 (commit_reply ''abc123'')])) \<and>
   justified (gh_log (the (server_run server_init [Arrive q_main, Tick 100, Reply 0 (commit_reply ''abc123'')])))
     100 ''gh/octo/hello-world/main'' ''abc123''"
proof -
  let ?es = "[Arrive q_main, Tick 100, Reply 0 (commit_reply ''abc123'')]"
  let ?s = "the (server_run server_init ?es)"
  have run: "server_run server_init ?es = Some ?s" by (simp add: server_eval)
  have r: "reachable ?s" by (rule server_run_reachable [OF run reachable.init])
  have m: "(''gh/octo/hello-world/main'', \<lparr>hit_value = ''abc123'', hit_now = 100\<rparr>) \<in> set (lru_list (cache ?s))"
    by (simp add: server_eval)
  show ?thesis using server_cache_sound [OF r m] by simp
qed

text \<open>C21: when no request names a service, owner or repository containing a slash, every
  200 answer the server gave, however requests and callbacks interleaved, is a commit id
  that GitHub returned for exactly that owner, repository and \<open>heads/<ref>\<close>, and GitHub
  returned it less than 5000 ms before the answer was given (the data served is never
  older than the cache lifetime).\<close>

theorem server_answer_exact:
  assumes "reachable s" and "\<forall>a \<in> set (answered s). req_slash_free (ans_req a)"
    and "a \<in> set (answered s)" and "ans_resp a = resolve_ref v"
  shows "\<exists>h e. req_service (ans_req a) = ''gh'' \<and> req_ref (ans_req a) = Some h \<and> e \<in> set (gh_log s) \<and>
           ex_call e = gh_get_reference (req_user (ans_req a)) (req_repo (ans_req a)) (gh_reference h) \<and>
           gh_classify (ex_result e) = Resolved v \<and>
           ex_time e \<le> ans_time a \<and> ans_time a - ex_time e < 1000 * 5"
proof -
  let ?q = "ans_req a"
  have inv: "server_inv s" by (rule reachable_server_inv [OF assms(1)])
  from inv assms(3,4) obtain h tw where h: "req_ref ?q = Some h" and tw: "tw \<le> ans_time a" "ans_time a - tw < 1000 * 5"
    and j: "justified (gh_log s) tw (ref_cache_getkey (req_service ?q) (req_user ?q) (req_repo ?q) (js_str h)) v"
    by (force simp: server_inv_def answers_sound_def)
  from j obtain e where e: "e \<in> set (gh_log s)" and et: "ex_time e = tw"
    and cl: "gh_classify (ex_result e) = Resolved v"
    and k: "ref_cache_getkey (req_service ?q) (req_user ?q) (req_repo ?q) (js_str h) =
            ref_cache_getkey ''gh'' (call_owner (ex_call e)) (call_repo (ex_call e)) (drop 6 (call_ref (ex_call e)))"
    by (auto simp: justified_def)
  from inv e obtain b h' where b: "b \<in> set (answered s)" and ref': "req_ref (ans_req b) = Some h'"
    and call: "ex_call e = gh_get_reference (req_user (ans_req b)) (req_repo (ans_req b)) (gh_reference h')"
    by (force simp: server_inv_def log_ok_def)
  from assms(2) b have sfb: "req_slash_free (ans_req b)" by blast
  from assms(2,3) have sfq: "req_slash_free ?q" by blast
  have "ref_cache_getkey (req_service ?q) (req_user ?q) (req_repo ?q) (js_str h) =
        ref_cache_getkey ''gh'' (req_user (ans_req b)) (req_repo (ans_req b)) (js_str h')"
    using k call by (simp add: gh_get_reference_def gh_reference_def)
  with sfb sfq have eqs: "req_service ?q = ''gh''" "req_user ?q = req_user (ans_req b)"
      "req_repo ?q = req_repo (ans_req b)" "js_str h = js_str h'"
    by (auto simp: req_slash_free_def ref_cache_getkey_eq)
  then have "gh_reference h = gh_reference h'" by (simp add: gh_reference_def)
  with call eqs have "ex_call e = gh_get_reference (req_user ?q) (req_repo ?q) (gh_reference h)" by simp
  with e et cl h eqs(1) tw show ?thesis by blast
qed

theorem server_answer_exact_witness:
  "\<exists>h e. req_service q_main = ''gh'' \<and> req_ref q_main = Some h \<and>
     e \<in> set (gh_log (the (server_run server_init [Arrive q_main, Tick 100, Reply 0 (commit_reply ''abc123''),
                                                   Tick 1000, Arrive q_main]))) \<and>
     ex_call e = gh_get_reference (req_user q_main) (req_repo q_main) (gh_reference h) \<and>
     gh_classify (ex_result e) = Resolved ''abc123'' \<and>
     ex_time e \<le> 1100 \<and> 1100 - ex_time e < 1000 * 5"
proof -
  let ?es = "[Arrive q_main, Tick 100, Reply 0 (commit_reply ''abc123''), Tick 1000, Arrive q_main]"
  let ?s = "the (server_run server_init ?es)"
  let ?a = "\<lparr>ans_id = 1, ans_req = q_main, ans_resp = resolve_ref ''abc123'', ans_time = 1100\<rparr>"
  have run: "server_run server_init ?es = Some ?s" by (simp add: server_eval)
  have r: "reachable ?s" by (rule server_run_reachable [OF run reachable.init])
  have sf: "\<forall>a \<in> set (answered ?s). req_slash_free (ans_req a)"
    by (simp add: server_eval req_slash_free_def)
  have m: "?a \<in> set (answered ?s)"
    by (simp add: server_eval resolve_ref_def)
  show ?thesis using server_answer_exact [OF r sf m, of "''abc123''"] by simp
qed

text \<open>C22: in every reachable state the shared cache holds at most 5000 entries, under
  distinct keys, and keeps the 5000 ms lifetime it was created with.\<close>

theorem server_cache_bounds:
  assumes "reachable s"
  shows "length (lru_list (cache s)) \<le> 5000 \<and> distinct (map fst (lru_list (cache s))) \<and>
         lru_max_age (cache s) = 1000 * 5"
  using reachable_server_inv [OF assms]
  by (auto simp: server_inv_def resolver_inv_def ref_cache_inv_def lru_inv_def)

theorem server_cache_bounds_witness:
  "length (lru_list (cache (the (server_run server_init [Arrive q_main, Tick 100, Reply 0 (commit_reply ''abc123'')])))) \<le> 5000"
proof -
  let ?es = "[Arrive q_main, Tick 100, Reply 0 (commit_reply ''abc123'')]"
  have run: "server_run server_init ?es = Some (the (server_run server_init ?es))" by (simp add: server_eval)
  show ?thesis using server_cache_bounds [OF server_run_reachable [OF run reachable.init]] by simp
qed

text \<open>C23: there is no single-flight. In any state of the server, when a request for a
  branch of \<open>gh\<close> misses the cache, it leaves a GitHub call in flight, and the same
  request arriving any time later, before anything else has happened, misses again and
  leaves a second, identical call in flight beside the first.\<close>

theorem server_concurrent_misses:
  assumes "req_service q = ''gh''" and "req_ref q = Some h" and "jsv_truthy h"
    and "fst (ref_cache_read (clock s) ''gh'' (req_user q) (req_repo q) h (cache s)) = None"
  shows "map (\<lambda>x. (fst x, pend_call (snd (snd x)))) (inflight (arrive q ((arrive q s)\<lparr>clock := clock s + d\<rparr>))) =
           map (\<lambda>x. (fst x, pend_call (snd (snd x)))) (inflight s) @
           [(next_id s, gh_get_reference (req_user q) (req_repo q) (gh_reference h)),
            (Suc (next_id s), gh_get_reference (req_user q) (req_repo q) (gh_reference h))]"
proof -
  let ?c1 = "snd (ref_cache_read (clock s) ''gh'' (req_user q) (req_repo q) h (cache s))"
  have miss2: "fst (ref_cache_read (clock s + d) ''gh'' (req_user q) (req_repo q) h ?c1) = None"
    by (rule ref_cache_read_miss_again [OF assms(4)])
  show ?thesis
    using assms miss2 by (simp add: arrive_def resolve_get_eq Let_def)
qed

theorem server_concurrent_misses_witness:
  "map (\<lambda>x. (fst x, pend_call (snd (snd x)))) (inflight (arrive q_main ((arrive q_main server_init)\<lparr>clock := 0 + 10\<rparr>))) =
     [(0, \<lparr>call_owner = ''octo'', call_repo = ''hello-world'', call_ref = ''heads/main''\<rparr>),
      (1, \<lparr>call_owner = ''octo'', call_repo = ''hello-world'', call_ref = ''heads/main''\<rparr>)]"
proof -
  have "fst (ref_cache_read (clock server_init) ''gh'' (req_user q_main) (req_repo q_main) (JStr ''main'') (cache server_init)) = None"
    by (simp add: server_eval)
  from server_concurrent_misses [of q_main "JStr ''main''" server_init 10, OF _ _ _ this]
  show ?thesis by (simp add: server_eval)
qed

text \<open>C24: callbacks that return out of order overwrite newer data with older data. Two
  requests for one branch miss and call GitHub; the later call is answered first with
  commit \<open>new\<close>, then the earlier call's answer \<open>old\<close> arrives and replaces it, with a
  fresh lifetime, so the next request is served \<open>old\<close>.\<close>

theorem server_out_of_order_overwrite:
  "map (\<lambda>a. (ans_id a, ans_resp a, ans_time a)) (answered (the (server_run server_init
     [Arrive q_main, Tick 10, Arrive q_main, Tick 10, Reply 1 (commit_reply ''new''),
      Tick 10, Reply 0 (commit_reply ''old''), Tick 10, Arrive q_main]))) =
   [(1, resolve_ref ''new'', 20), (0, resolve_ref ''old'', 30), (2, resolve_ref ''old'', 40)]"
  by (simp add: server_eval resolve_ref_def)

end
