(* ===== verification/Process.thy ===== *)
theory Process
  imports Bootstrap Server
begin

text \<open>
  The start-up sequence of \<^verbatim>\<open>src/index.js\<close> as the module's top level runs it, as a
  list of observable effects in the order they happen: the configuration of lines
  10--19 (\<open>bootstrap\<close>: \<^verbatim>\<open>console.error("Huh?")\<close> and \<^verbatim>\<open>process.exit(1)\<close>, or
  \<^verbatim>\<open>octokit.authenticate\<close> with the key), \<^verbatim>\<open>app.use(cors(...))\<close> (line 113), the
  synchronous \<^verbatim>\<open>fs.readFileSync\<close> of \<^verbatim>\<open>api.json\<close> while \<^verbatim>\<open>openapi_args\<close> is built
  (line 116; a missing file throws, and an uncaught exception ends the process with status
  1), \<^verbatim>\<open>openapi.initialize\<close> (line 131), \<^verbatim>\<open>app.disable("etag")\<close> (line 133),
  \<^verbatim>\<open>app.listen(config_port)\<close> (line 134) and \<^verbatim>\<open>console.log("Listening at",
  config_port)\<close> (line 136). Node binds the socket after the synchronous code has run
  and reports a failure (\<open>EADDRINUSE\<close>, \<open>EACCES\<close>) as an \<^verbatim>\<open>'error'\<close> event that
  nothing handles, which ends the process with status 1; the outcome of the binding is
  a parameter. When start-up succeeds the process serves requests from the state
  \<open>server_init\<close> of theory \<open>Server\<close>: an empty cache, nothing in flight. The
  content of \<^verbatim>\<open>api.json\<close> is taken to be the document theory \<open>App\<close> assumes.
\<close>

datatype effect =
    Stderr string | Exit nat | Authenticate string | UseCors | ReadApiDoc
  | InstallRoutes | DisableEtag | Listen port | Stdout string | Uncaught string

datatype bind_result = Bound | BindError string

text \<open>\<^verbatim>\<open>console.log\<close> prints a string argument as it is and a number in decimal.\<close>

fun digits_of :: "nat \<Rightarrow> string" where
  "digits_of n =
     (if n < 10 then [char_of (48 + n)] else digits_of (n div 10) @ [char_of (48 + n mod 10)])"

fun port_text :: "port \<Rightarrow> string" where
  "port_text (PortEnv s) = s"
| "port_text (PortDefault n) = digits_of n"

definition process_start :: "env \<Rightarrow> string option \<Rightarrow> bind_result \<Rightarrow> effect list \<times> server option" where
  "process_start e doc b =
     (case bootstrap e of
        Inl (code, msg) \<Rightarrow> ([Stderr msg, Exit code], None)
      | Inr cfg \<Rightarrow>
          (let pre = [Authenticate (cfg_token cfg), UseCors, ReadApiDoc] in
           case doc of
             None \<Rightarrow> (pre @ [Uncaught ''ENOENT'', Exit 1], None)
           | Some _ \<Rightarrow>
               (let up = pre @ [InstallRoutes, DisableEtag, Listen (cfg_port cfg),
                                Stdout (''Listening at '' @ port_text (cfg_port cfg))] in
                case b of
                  Bound \<Rightarrow> (up, Some server_init)
                | BindError err \<Rightarrow> (up @ [Uncaught err, Exit 1], None))))"

subsection \<open>Ordering of start-up\<close>

fun is_listen :: "effect \<Rightarrow> bool" where
  "is_listen (Listen p) = True"
| "is_listen _ = False"

text \<open>A list in which one element alone is a \<open>Listen\<close> splits around it in one way only.\<close>

lemma split_unique:
  assumes "\<forall>z\<in>set as. \<not> P z" and "\<forall>z\<in>set bs. \<not> P z" and "P x"
    and "as @ y # bs = xs @ x # ys"
  shows "xs = as \<and> x = y \<and> ys = bs"
  using assms
proof (induction as arbitrary: xs)
  case Nil
  then show ?case by (cases xs) auto
next
  case (Cons a as)
  then show ?case by (cases xs) auto
qed

text \<open>The trace of a start-up that reads its configuration and the API document.\<close>

lemma process_start_up:
  assumes "e ''GH_KEY'' = Some k" and "js_truthy k" and "doc = Some d"
  shows "process_start e doc b =
           ([Authenticate k, UseCors, ReadApiDoc, InstallRoutes, DisableEtag] @
            Listen (config_port e) # Stdout (''Listening at '' @ port_text (config_port e)) #
            (case b of Bound \<Rightarrow> [] | BindError err \<Rightarrow> [Uncaught err, Exit 1]),
            (case b of Bound \<Rightarrow> Some server_init | BindError err \<Rightarrow> None))"
  using assms by (simp add: process_start_def bootstrap_def split: bind_result.split)

lemma process_start_down:
  assumes "\<not> (js_truthy_opt (e ''GH_KEY'') \<and> doc \<noteq> None)"
  shows "snd (process_start e doc b) = None \<and> (\<forall>z\<in>set (fst (process_start e doc b)). \<not> is_listen z)"
  using assms bootstrap_cases [of e]
  by (auto simp: process_start_def js_truthy_opt_iff split: option.splits)

text \<open>In a start-up that reaches \<open>listen\<close>, the effects before and after it.\<close>

lemma process_start_listen_at:
  assumes k: "e ''GH_KEY'' = Some k" "js_truthy k" and d: "doc = Some d"
    and h: "fst (process_start e doc b) = xs @ Listen p # ys"
  shows "xs = [Authenticate k, UseCors, ReadApiDoc, InstallRoutes, DisableEtag] \<and> p = config_port e \<and>
         ys = Stdout (''Listening at '' @ port_text (config_port e)) #
                (case b of Bound \<Rightarrow> [] | BindError err \<Rightarrow> [Uncaught err, Exit 1])"
proof -
  let ?ys = "Stdout (''Listening at '' @ port_text (config_port e)) #
               (case b of Bound \<Rightarrow> [] | BindError err \<Rightarrow> [Uncaught err, Exit 1])"
  have ys: "\<forall>z\<in>set ?ys. \<not> is_listen z" by (cases b) auto
  have "[Authenticate k, UseCors, ReadApiDoc, InstallRoutes, DisableEtag] @ Listen (config_port e) # ?ys =
        xs @ Listen p # ys"
    using process_start_up [where e = e and k = k and doc = doc and d = d and b = b] k d h by simp
  then show ?thesis
    using split_unique [of "[Authenticate k, UseCors, ReadApiDoc, InstallRoutes, DisableEtag]" is_listen ?ys
        "Listen p" "Listen (config_port e)" xs ys] ys
    by simp
qed

text \<open>C34: start-up is ordered. The process serves requests, from the empty state,
  exactly when \<^verbatim>\<open>GH_KEY\<close> is set and non-empty, \<^verbatim>\<open>api.json\<close> can be read and
  the socket binds; it calls \<^verbatim>\<open>listen\<close> exactly when the first two hold, on the
  configured port, only after authenticating with the key and installing CORS and the
  routes, and the next effect is the log line \<^verbatim>\<open>Listening at <port>\<close>, printed
  whether or not the binding later fails.\<close>

theorem process_start_order:
  assumes "process_start e doc b = (tr, srv)"
  shows "(srv \<noteq> None \<longleftrightarrow> js_truthy_opt (e ''GH_KEY'') \<and> doc \<noteq> None \<and> b = Bound) \<and>
         (srv \<noteq> None \<longrightarrow> srv = Some server_init) \<and>
         ((\<exists>z\<in>set tr. is_listen z) \<longleftrightarrow> js_truthy_opt (e ''GH_KEY'') \<and> doc \<noteq> None) \<and>
         (\<forall>xs p ys. tr = xs @ Listen p # ys \<longrightarrow>
            p = config_port e \<and> e ''GH_KEY'' \<noteq> None \<and> Authenticate (the (e ''GH_KEY'')) \<in> set xs \<and>
            UseCors \<in> set xs \<and> InstallRoutes \<in> set xs \<and>
            ys \<noteq> [] \<and> hd ys = Stdout (''Listening at '' @ port_text p))"
proof (cases "js_truthy_opt (e ''GH_KEY'') \<and> doc \<noteq> None")
  case False
  then have "srv = None" "\<forall>z\<in>set tr. \<not> is_listen z"
    using process_start_down [of e doc b] False assms by simp_all
  then show ?thesis using False by fastforce
next
  case True
  then obtain k d where k: "e ''GH_KEY'' = Some k" "js_truthy k" and d: "doc = Some d"
    by (auto simp: js_truthy_opt_iff js_truthy_def)
  have tr: "\<exists>z\<in>set tr. is_listen z"
    and srv: "srv = (case b of Bound \<Rightarrow> Some server_init | BindError err \<Rightarrow> None)"
    using process_start_up [where e = e and k = k and doc = doc and d = d and b = b] k d assms by auto
  have after: "p = config_port e \<and> e ''GH_KEY'' \<noteq> None \<and> Authenticate (the (e ''GH_KEY'')) \<in> set xs \<and>
            UseCors \<in> set xs \<and> InstallRoutes \<in> set xs \<and>
            ys \<noteq> [] \<and> hd ys = Stdout (''Listening at '' @ port_text p)"
    if "tr = xs @ Listen p # ys" for xs p ys
    using process_start_listen_at [where e = e and k = k and doc = doc and d = d and b = b and xs = xs and p = p and ys = ys] that assms k d by simp
  with True srv tr after show ?thesis by (cases b) auto
qed

theorem process_start_order_witness:
  "snd (process_start (\<lambda>v. if v = ''GH_KEY'' then Some ''tok'' else None) (Some ''{}'') Bound) = Some server_init"
proof -
  obtain tr srv where h: "process_start (\<lambda>v. if v = ''GH_KEY'' then Some ''tok'' else None) (Some ''{}'') Bound = (tr, srv)"
    by (metis surj_pair)
  have "srv = Some server_init" using process_start_order [OF h] by simp
  with h show ?thesis by simp
qed

end
