(* ===== verification/Spec2Isabelle.thy ===== *)
theory Spec2Isabelle
  imports App Process
begin

text \<open>
  \<^bold>\<open>A verified model of the reference resolver of nm-anonservices.\<close>

  The program (\<^verbatim>\<open>src/index.js\<close>, one file) is an Express server that resolves a
  branch of a GitHub repository to its commit id: \<^verbatim>\<open>GET /{service}/{user}/{repo}/resolve?ref=...\<close>
  answers \<^verbatim>\<open>{ref: sha}\<close>, or 404 with \<^verbatim>\<open>{err: ...}\<close>. Resolutions are kept for
  five seconds in a process-wide \<^verbatim>\<open>lru-cache\<close> of at most 5000 entries. Its parts,
  leaf first, and the theory that models each:
  \<^item> \<open>Prelude\<close>: the clock (milliseconds of \<^verbatim>\<open>Date.now()\<close>, as \<open>nat\<close>), JavaScript
    truthiness of strings (\<open>js_truthy\<close>, \<open>js_truthy_opt\<close> for a value that may
    be absent), the values \<open>jsval\<close> that \<^verbatim>\<open>req.query.ref\<close> can hold (a string, an
    array of strings, an object) with their truthiness \<open>jsv_truthy\<close> and their string
    conversion \<open>js_str\<close>, and shared lemmas on separator-joined strings and association
    lists filtered by key (collection \<open>alist_simps\<close>).
  \<^item> \<open>LRU_Cache\<close>: the \<^verbatim>\<open>lru-cache\<close> package, which is not part of the repository
    and is modelled from the Cache Store contract of the specification (section 4.1).
    State: record \<open>lru\<close> (capacity \<open>lru_max\<close>, lifetime \<open>lru_max_age\<close>, entry list
    \<open>lru_list\<close> from most to least recently used, each entry a \<open>hit\<close> with its value
    and write time). Operations \<open>lru_get\<close> (a stale entry, of age at least
    \<open>maxAge\<close>, is removed and missed; a hit moves to the front), \<open>lru_set\<close>
    (overwrite, move to the front, then the trim loop \<open>lru_trim\<close>, a \<^theory_text>\<open>function\<close>
    with a length measure that drops tail entries while over capacity). The abstraction
    \<open>lru_view\<close> is what the cache answers at a time; \<open>lru_inv\<close> (distinct keys,
    at most \<open>max\<close> entries) is kept by every operation. Lemmas: the trim loop equals
    \<open>take max\<close>, a get never changes a present or later answer, a set answers its own
    key until it expires, evicts nothing below capacity and exactly the last entry of a
    full cache.
  \<^item> \<open>Ref_Cache\<close>: \<^verbatim>\<open>ref_cache\<close>, \<^verbatim>\<open>ref_cache_getkey\<close>, \<^verbatim>\<open>ref_cache_enter\<close>,
    \<^verbatim>\<open>ref_cache_read\<close> (lines 33--55), with the cache passed and returned explicitly.
    The specification's Cache Store (a map from the four-field key to a commit id and
    its insertion time, \<open>store_get\<close>, \<open>store_put\<close>) and the abstraction
    \<open>ref_cache_abs\<close>; the key's parser \<open>ref_cache_parsekey\<close> for the round trip.
  \<^item> \<open>Http\<close>: the result handlers \<^verbatim>\<open>unknown_service\<close>, \<^verbatim>\<open>unknown_repository\<close>,
    \<^verbatim>\<open>resolve_ref\<close> (lines 22--31) as returned responses.
  \<^item> \<open>Github\<close>: the \<^verbatim>\<open>getReference\<close> call for \<^verbatim>\<open>heads/<ref>\<close> and the shape
    of its callback's arguments; the test "data, object, type commit"
    (\<open>commit_object\<close>) and the adapter contract of the specification (\<open>gh_classify\<close>:
    \<open>Resolved\<close>, \<open>RefNotFound\<close>, \<open>UpstreamFailure\<close>). GitHub itself is a parameter:
    any function from calls to results.
  \<^item> \<open>Resolver\<close>: \<^verbatim>\<open>resolve.get\<close> (lines 59--97) split at its asynchronous call
    into \<open>resolve_get\<close> (answer now, or a \<open>pending\<close> call) and the callback
    \<open>resolve_cb\<close>; \<open>resolve_sync\<close> runs both with nothing in between;
    \<^verbatim>\<open>pathderef.get\<close> is \<open>pathderef_get\<close>. The invariant \<open>resolver_inv\<close>
    (cache invariant, non-empty commit ids, keys of service \<open>gh\<close> only) is kept by
    every handler step.
  \<^item> \<open>Server\<close>: the whole process. Node runs each handler segment atomically, so a
    run is a sequence of events (\<open>Tick\<close>, \<open>Arrive\<close> of a request, \<open>Reply\<close> of
    one in-flight GitHub call, in any order and with any answer), executed by
    \<open>server_step\<close> and \<open>server_run\<close>; \<open>reachable\<close> is the inductive set of
    states under every schedule. Every answer is recorded with the time it was given
    (\<open>answer\<close>), every GitHub answer with the time it arrived (\<open>gh_exchange\<close>).
    The invariant \<open>server_inv\<close> (cache invariant, request ids, well-formed pending
    calls, every cache entry justified by the GitHub answer that arrived when it was
    written, every 200 answer justified by a GitHub answer less than 5000 ms older) is
    proved by rule induction.
  \<^item> \<open>Bootstrap\<close>: start-up (lines 9--19) as \<open>bootstrap\<close>, a function from the
    environment to \<open>Inl (1, ''Huh?'')\<close> (exit status and message) or \<open>Inr\<close> the
    \<open>config\<close> (port from \<^verbatim>\<open>PORT\<close> or 9999, the GitHub token); its behaviour is
    stated as part of the start-up sequence of \<open>Process\<close>.
  \<^item> \<open>Uri\<close>: \<^verbatim>\<open>decodeURIComponent\<close> (\<open>uri_decode\<close>, \<open>None\<close> where it
    throws) and \<^verbatim>\<open>encodeURIComponent\<close> (\<open>uri_encode\<close>) on byte strings, with
    their round trip.
  \<^item> \<open>Query\<close>: the query-string parser \<^verbatim>\<open>qs\<close> that Express applies to the text
    after \<open>?\<close>, for the property \<^verbatim>\<open>ref\<close> (line 64): \<open>qs_parts\<close> (bracket
    escapes rewritten, split at \<open>&\<close>, at most 1000 pieces), \<open>qs_pair\<close> (key and
    value at the first \<open>]=\<close> or \<open>=\<close>, decoded by \<open>qs_decode\<close>),
    \<open>qs_values\<close> (repeated keys collected), \<open>qs_ref_merge\<close> (the keys
    \<^verbatim>\<open>ref\<close> and \<^verbatim>\<open>ref[]\<close> merged in order of first occurrence, as
    \<^verbatim>\<open>utils.merge\<close> does), and \<open>query_ref\<close>, the value of \<^verbatim>\<open>req.query.ref\<close>.
  \<^item> \<open>App\<close>: the HTTP wiring (lines 106--131). \<open>app_handle\<close> is the configured
    Express application: the \<^verbatim>\<open>cors\<close> middleware (\<open>cors_preflight\<close>,
    \<open>cors_allow_origin\<close>), then the routes \<^verbatim>\<open>express-openapi\<close> installs for
    \<open>openapi_paths\<close>, followed by its default \<^verbatim>\<open>GET /api-docs\<close> route
    (\<open>app_routes\<close>; \<open>app_route\<close>: template parsing, Express matching and
    percent-decoding of parameters by \<open>uri_decode\<close>), then \<open>resolve_get\<close> or
    \<open>pathderef_get\<close> on the decoded parameters; \<open>app_callback\<close> is the
    callback writing through the same response, and \<open>app_sync\<close> runs a request and its
    callback with nothing in between. A request carries its method, path and raw query
    string; the handlers read \<^verbatim>\<open>ref\<close> through \<open>query_ref\<close>. The library
    behaviour selected by this configuration is written out in the theory's header.
  \<^item> \<open>Process\<close>: the top level run in order (lines 10--136) as \<open>process_start\<close>,
    the list of observable effects (\<open>effect\<close>: output, exit, authentication,
    middleware and routes installed, \<^verbatim>\<open>listen\<close>, log line) and the server state
    that then serves requests, given the environment, the content of \<^verbatim>\<open>api.json\<close>
    (\<open>None\<close> when it cannot be read) and the outcome of binding the socket.
  \<^item> This theory: the specification's Resolver (section 4.3) as an abstract function
    \<open>resolve_spec\<close> over the Cache Store with an adapter registry, and the refinement
    theorem that \<open>resolve_sync\<close> implements it.

  \<^bold>\<open>What the claims show.\<close> Cache hits answer without GitHub (C1) and a resolution
  is written through and served from the cache while fresh (C2); entries expire at
  5000 ms (C3); a full cache evicts its least recently used entry (C4) and never the one
  just read (C5); writes with an empty field are dropped (C6); non-commit objects, unknown
  services, missing refs and upstream failures get the specified 404s (C7--C9, C15); the
  upstream call asks for \<open>heads/<ref>\<close> exactly on a miss (C16); the invariants hold
  (C17, C20, C22); answers are never invented and never older than the cache lifetime
  (C18, C21). Over HTTP, client-encoded paths route to the resolver with the original
  names (C25) and a \<open>GET\<close> is exactly the resolver's handler plus the CORS header
  (C26); a malformed escape is refused with 400 (C27); every response is well-formed
  (C28). A client that writes \<^verbatim>\<open>?ref=\<close> followed by the encoded branch name hands the
  handler exactly that name (C33). Start-up listens only after authenticating and
  installing CORS and the routes, and serves only with a key, the API document and a
  bound socket (C34).
  Refinement: the cache read and the whole resolver implement the specification's Cache
  Store and Resolver, for a ref given as a string (C12, C13), and over HTTP the whole
  application implements the specification's \<^verbatim>\<open>Resolve\<close> interface with its status
  and error bodies (C32); the key round-trips when the first three fields have no
  slash (C14).

  \<^bold>\<open>Findings.\<close> The key joins the fields with \<open>/\<close>, which branch names may
  contain, so different requests share entries: a nonexistent repository or an
  unregistered service such as \<open>gh/octo\<close> is answered 200 with another branch's commit
  (C10, C11). A commit without a sha is answered with an empty ref and not cached (C19).
  There is no request coalescing: in any state, repeated misses of one branch each call
  GitHub (C23), and a late callback overwrites a newer commit with an older one (C24).
  Express decodes \<open>%2F\<close> in path parameters, so the key collision is reachable over
  HTTP (C29). The real \<^verbatim>\<open>lru-cache\<close> treats an entry as stale only when strictly
  older than \<open>maxAge\<close>; the model follows the specification (stale at age
  \<open>\<ge> maxAge\<close>), so C3, C21 and the other claims about the expiry boundary hold of the
  specification's cache, and at exactly 5000 ms the real library still answers. A
  repeated or bracketed \<^verbatim>\<open>ref\<close> parameter is parsed into an array, which is always
  truthy: every such query gets past the emptiness check and reaches GitHub as
  \<open>heads/\<close> followed by the comma-joined values, even when all values are empty
  (C30, C31). The log line \<^verbatim>\<open>Listening at <port>\<close> is printed before the socket is
  bound, so a process whose port is taken logs it and then dies (C34).

  \<^bold>\<open>Bounds.\<close> Capacity 5000 and lifetime 5000 ms are the values of
  \<^verbatim>\<open>src/index.js\<close>; the cache lemmas hold for any capacity and lifetime, and the
  examples use small caches built directly. No fuel is needed: every loop (the trim loop,
  runs of events) is a terminating recursion.

  \<^bold>\<open>Not modelled.\<close> The module imports (lines 1--7). \<^verbatim>\<open>app.disable("etag")\<close>
  is an effect of start-up; its consequence, no \<^verbatim>\<open>ETag\<close> header and no 304 answer
  to conditional requests, is reflected only in that responses carry no such header, as
  conditional requests are not modelled. The content of \<^verbatim>\<open>api.json\<close>, which is not in
  the repository: the model assumes it sets no base path and documents no parameters, so
  \<^verbatim>\<open>express-openapi\<close> mounts the paths at the root and validates nothing. How Node
  reads the value given to \<^verbatim>\<open>listen\<close> (a port number, or a pipe name for a
  non-numeric \<^verbatim>\<open>PORT\<close>): the model records the value itself. The GitHub service
  itself. In the query parser, the keys other than \<^verbatim>\<open>ref\<close> and \<^verbatim>\<open>ref[]\<close> that
  \<^verbatim>\<open>qs\<close> also maps to property \<^verbatim>\<open>ref\<close> (\<^verbatim>\<open>ref[0]\<close>, \<^verbatim>\<open>ref[k]\<close>,
  \<^verbatim>\<open>[ref]\<close>, deeper nestings), which would give arrays by index or objects; the
  value type \<open>jsval\<close> still covers objects, so the handlers are modelled on them.
  Percent-decoding works on bytes and does not check that they form valid UTF-8.
  \<^verbatim>\<open>lru-cache\<close> reads a capacity of 0 as unbounded, where \<open>lru_new\<close> keeps
  nothing; the program's capacity is 5000, so this never arises.

  \<^bold>\<open>Plan.\<close> Next: HTTP requests instead of parsed ones as the events of the
  server model; the real \<^verbatim>\<open>lru-cache\<close> staleness test (strict) as a variant of
  \<open>is_stale\<close> and the theorems that hold under both; a single-flight variant of the
  server and its equivalence on the answers given; the bracketed keys of \<^verbatim>\<open>qs\<close>.
\<close>

section \<open>The Resolver of the specification\<close>

datatype resolve_error = InvalidRequest | UnknownService | UnknownRepositoryOrReference

fun error_response :: "resolve_error \<Rightarrow> http_response" where
  "error_response InvalidRequest = unknown_repository"
| "error_response UnknownService = unknown_service"
| "error_response UnknownRepositoryOrReference = unknown_repository"

fun spec_response :: "resolve_error + string \<Rightarrow> http_response" where
  "spec_response (Inl e) = error_response e"
| "spec_response (Inr v) = resolve_ref v"

type_synonym registry = "string \<Rightarrow> (string \<Rightarrow> string \<Rightarrow> string \<Rightarrow> resolution) option"

text \<open>The registry of the program: one adapter, for \<open>gh\<close>, which asks for the branch head.\<close>

definition gh_registry :: "(gh_call \<Rightarrow> api_result) \<Rightarrow> registry" where
  "gh_registry gh sid =
     (if sid = ''gh''
      then Some (\<lambda>owner repo ref.
             gh_classify (gh \<lparr>call_owner = owner, call_repo = repo, call_ref = ''heads/'' @ ref\<rparr>))
      else None)"

text \<open>The specification's \<open>Resolve\<close> takes the ref as a string: a missing ref, and
  a query value that is not a string (an array or an object), is not a valid input.\<close>

fun spec_ref :: "jsval option \<Rightarrow> string option" where
  "spec_ref (Some (JStr h)) = Some h"
| "spec_ref _ = None"

fun string_ref :: "jsval option \<Rightarrow> bool" where
  "string_ref None = True"
| "string_ref (Some (JStr h)) = True"
| "string_ref (Some _) = False"

definition resolve_spec ::
  "nat \<Rightarrow> time \<Rightarrow> time \<Rightarrow> registry \<Rightarrow> resolve_req \<Rightarrow> store \<Rightarrow> (resolve_error + string) \<times> store" where
  "resolve_spec ttl t1 t2 reg q m =
     (case spec_ref (req_ref q) of
        None \<Rightarrow> (Inl InvalidRequest, m)
      | Some h \<Rightarrow>
          if h = [] then (Inl InvalidRequest, m)
          else
            (let k = (req_service q, req_user q, req_repo q, h)
             in case store_get ttl t1 k m of
                  Some v \<Rightarrow> (Inr v, m)
                | None \<Rightarrow>
                    (case reg (req_service q) of
                       None \<Rightarrow> (Inl UnknownService, m)
                     | Some adapter \<Rightarrow>
                         (case adapter (req_user q) (req_repo q) h of
                            Resolved v \<Rightarrow> (Inr v, store_put t2 k v m)
                          | _ \<Rightarrow> (Inl UnknownRepositoryOrReference, m)))))"

section \<open>Properties spanning the components\<close>

lemma resolve_spec_eq:
  "resolve_spec ttl t1 t2 reg q m =
     (if \<not> js_truthy_opt (spec_ref (req_ref q)) then (Inl InvalidRequest, m)
      else
        (let h = the (spec_ref (req_ref q)); k = (req_service q, req_user q, req_repo q, h)
         in case store_get ttl t1 k m of
              Some v \<Rightarrow> (Inr v, m)
            | None \<Rightarrow>
                (case reg (req_service q) of
                   None \<Rightarrow> (Inl UnknownService, m)
                 | Some adapter \<Rightarrow>
                     (case adapter (req_user q) (req_repo q) h of
                        Resolved v \<Rightarrow> (Inr v, store_put t2 k v m)
                      | _ \<Rightarrow> (Inl UnknownRepositoryOrReference, m)))))"
  by (cases "spec_ref (req_ref q)") (auto simp: resolve_spec_def js_truthy_def Let_def)

section \<open>Refinement\<close>

lemma resolve_sync_refines:
  assumes inv: "resolver_inv c" and sf: "req_slash_free q" and room: "length (lru_list c) < lru_max c"
    and str: "string_ref (req_ref q)"
  shows "fst (resolve_sync t1 t2 gh q c) =
           spec_response (fst (resolve_spec (lru_max_age c) t1 t2 (gh_registry gh) q (ref_cache_abs c))) \<and>
         (\<forall>k t. slash_free k \<and> t1 \<le> t \<longrightarrow>
            store_get (lru_max_age c) t k (ref_cache_abs (snd (resolve_sync t1 t2 gh q c))) =
            store_get (lru_max_age c) t k (snd (resolve_spec (lru_max_age c) t1 t2 (gh_registry gh) q (ref_cache_abs c))))"
proof (cases "js_truthy_opt (spec_ref (req_ref q))")
  case False
  with str have "\<not> jsv_truthy_opt (req_ref q)"
    by (cases "req_ref q" rule: spec_ref.cases) auto
  with False show ?thesis by (simp add: resolve_sync_def resolve_get_eq resolve_spec_eq)
next
  case True
  then obtain h where h: "req_ref q = Some (JStr h)" "js_truthy h"
    by (cases "req_ref q" rule: spec_ref.cases) auto
  let ?ttl = "lru_max_age c" and ?m = "ref_cache_abs c"
  let ?s = "req_service q" and ?u = "req_user q" and ?r = "req_repo q"
  let ?rd = "ref_cache_read t1 ?s ?u ?r (JStr h) c"
  let ?c1 = "snd ?rd"
  have ci: "ref_cache_inv c" using inv by (simp add: resolver_inv_def)
  have rd: "fst ?rd = store_get ?ttl t1 (?s, ?u, ?r, h) ?m" by (rule ref_cache_read_store [OF ci])
  have later: "\<And>k t. t1 \<le> t \<Longrightarrow> store_get ?ttl t k (ref_cache_abs ?c1) = store_get ?ttl t k ?m"
    by (rule store_get_read_later)
  show ?thesis
  proof (cases "fst ?rd")
    case (Some v)
    with rd have sg: "store_get ?ttl t1 (?s, ?u, ?r, h) ?m = Some v" by simp
    from Some h sg later show ?thesis
      by (simp add: resolve_sync_def resolve_get_eq resolve_spec_eq Let_def)
  next
    case None
    note miss = None
    with rd have sg: "store_get ?ttl t1 (?s, ?u, ?r, h) ?m = None" by simp
    show ?thesis
    proof (cases "?s = ''gh''")
      case False
      with h sg later miss show ?thesis
        by (simp add: resolve_sync_def resolve_get_eq resolve_spec_eq Let_def gh_registry_def)
    next
      case gh: True
      let ?call = "\<lparr>call_owner = ?u, call_repo = ?r, call_ref = ''heads/'' @ h\<rparr>"
      have get: "fst (resolve_sync t1 t2 gh q c) = fst (resolve_cb t2
          \<lparr>pend_user = ?u, pend_repo = ?r, pend_origref = JStr h,
           pend_call = gh_get_reference ?u ?r (gh_reference (JStr h))\<rparr> (gh ?call) ?c1)"
        and get2: "snd (resolve_sync t1 t2 gh q c) = snd (resolve_cb t2
          \<lparr>pend_user = ?u, pend_repo = ?r, pend_origref = JStr h,
           pend_call = gh_get_reference ?u ?r (gh_reference (JStr h))\<rparr> (gh ?call) ?c1)"
        using h miss gh by (simp_all add: resolve_sync_def resolve_get_eq Let_def gh_get_reference_def gh_reference_def)
      show ?thesis
      proof (cases "gh_classify (gh ?call)")
        case (Resolved v)
        have i1: "lru_inv ?c1" using ci by (simp add: ref_cache_inv_def ref_cache_read_eq lru_inv_get)
        have "length (lru_list ?c1) \<le> length (lru_list c)"
          by (simp add: ref_cache_read_eq lru_get_length_le)
        with room have "length (lru_list ?c1) < lru_max ?c1" by simp
        with i1 have ne: "lru_no_evict (ref_cache_getkey ''gh'' ?u ?r h) ?c1" by (blast intro: lru_no_evictI)
        have sfk: "slash_free (''gh'', ?u, ?r, h)" using sf by (simp add: req_slash_free_def)
        have "\<forall>k t. slash_free k \<and> t1 \<le> t \<longrightarrow>
            store_get ?ttl t k (ref_cache_abs (ref_cache_enter t2 ''gh'' ?u ?r (JStr h) v ?c1)) =
            store_get ?ttl t k (store_put t2 (?s, ?u, ?r, h) v ?m)"
        proof (intro allI impI)
          fix k t assume kt: "slash_free k \<and> t1 \<le> t"
          have "ref_cache_abs (ref_cache_enter t2 ''gh'' ?u ?r (JStr h) v ?c1) k =
                store_put t2 (''gh'', ?u, ?r, h) v (ref_cache_abs ?c1) k"
            using ref_cache_abs_enter [OF sfk _ ne] kt by blast
          then have "store_get ?ttl t k (ref_cache_abs (ref_cache_enter t2 ''gh'' ?u ?r (JStr h) v ?c1)) =
                     store_get ?ttl t k (store_put t2 (''gh'', ?u, ?r, h) v (ref_cache_abs ?c1))"
            by (simp add: store_get_def)
          also have "\<dots> = store_get ?ttl t k (store_put t2 (''gh'', ?u, ?r, h) v ?m)"
            using later [of t k] kt by (blast intro: store_get_put_cong)
          finally show "store_get ?ttl t k (ref_cache_abs (ref_cache_enter t2 ''gh'' ?u ?r (JStr h) v ?c1)) =
                        store_get ?ttl t k (store_put t2 (?s, ?u, ?r, h) v ?m)"
            using gh by simp
        qed
        with get get2 Resolved h sg miss gh show ?thesis
          by (simp add: resolve_cb_eq resolve_spec_eq Let_def gh_registry_def)
      next
        case RefNotFound
        with get get2 h sg miss gh later show ?thesis
          by (simp add: resolve_cb_eq resolve_spec_eq Let_def gh_registry_def)
      next
        case UpstreamFailure
        with get get2 h sg miss gh later show ?thesis
          by (simp add: resolve_cb_eq resolve_spec_eq Let_def gh_registry_def)
      qed
    qed
  qed
qed

text \<open>C13: the resolver implements the specification's Resolver. Started from a cache
  satisfying the resolver invariant that is not full, on a request whose service, owner
  and repository contain no slash, \<open>resolve.get\<close> with its callback gives the
  response of the abstract Resolver run on the abstraction of the cache, and leaves a
  cache whose abstraction answers every slash-free key, at the request's time and later,
  as the abstract Resolver's new store does.\<close>

theorem resolve_sync_refines_spec:
  assumes inv: "resolver_inv c" and sf: "req_slash_free q" and room: "length (lru_list c) < lru_max c"
    and str: "string_ref (req_ref q)"
  shows "fst (resolve_sync t1 t2 gh q c) =
           spec_response (fst (resolve_spec (lru_max_age c) t1 t2 (gh_registry gh) q (ref_cache_abs c))) \<and>
         (\<forall>k t. slash_free k \<and> t1 \<le> t \<longrightarrow>
            store_get (lru_max_age c) t k (ref_cache_abs (snd (resolve_sync t1 t2 gh q c))) =
            store_get (lru_max_age c) t k (snd (resolve_spec (lru_max_age c) t1 t2 (gh_registry gh) q (ref_cache_abs c))))"
  by (rule resolve_sync_refines [OF inv sf room str])

theorem resolve_sync_refines_spec_witness:
  "fst (resolve_sync 0 100 (gh_single ''octo'' ''hello-world'' ''heads/main'' (GitObject ''commit'' ''abc123''))
     q_main ref_cache_init) =
   spec_response (fst (resolve_spec 5000 0 100
     (gh_registry (gh_single ''octo'' ''hello-world'' ''heads/main'' (GitObject ''commit'' ''abc123'')))
     q_main (ref_cache_abs ref_cache_init)))"
proof -
  have h1: "resolver_inv ref_cache_init" by (rule resolver_inv_init)
  have h2: "req_slash_free q_main" by (simp add: req_slash_free_def q_main_def)
  have h3: "length (lru_list ref_cache_init) < lru_max ref_cache_init" by simp
  have h4: "string_ref (req_ref q_main)" by (simp add: q_main_def)
  show ?thesis
    using resolve_sync_refines_spec [OF h1 h2 h3 h4, of 0 100
        "gh_single ''octo'' ''hello-world'' ''heads/main'' (GitObject ''commit'' ''abc123'')"]
    by (simp add: query_ref_eval)
qed


text \<open>C30: a ref query parameter that the query parser turns into an array bypasses
  the emptiness check: \<^verbatim>\<open>?ref[]=\<close> gives the array holding the empty string,
  which is truthy, so the handler looks up the key \<open>gh/octo/hello-world/\<close> and asks
  GitHub for \<open>heads/\<close>, where the specification answers \<open>InvalidRequest\<close> without
  any upstream call; \<^verbatim>\<open>?ref=a&ref=b\<close> gives the array of both and asks for the
  branch \<open>a,b\<close>.\<close>

theorem resolve_array_ref_divergence:
  "query_ref ''ref[]='' = Some (JArr [[]]) \<and>
   fst (resolve_get 0 \<lparr>req_service = ''gh'', req_user = ''octo'', req_repo = ''hello-world'', req_ref = Some (JArr [[]])\<rparr>
        ref_cache_init) =
     Await \<lparr>pend_user = ''octo'', pend_repo = ''hello-world'', pend_origref = JArr [[]],
            pend_call = \<lparr>call_owner = ''octo'', call_repo = ''hello-world'', call_ref = ''heads/''\<rparr>\<rparr> \<and>
   fst (resolve_spec 5000 0 100 (gh_registry gh)
        \<lparr>req_service = ''gh'', req_user = ''octo'', req_repo = ''hello-world'', req_ref = Some (JArr [[]])\<rparr>
        (ref_cache_abs ref_cache_init)) = Inl InvalidRequest \<and>
   query_ref ''ref=a&ref=b'' = Some (JArr [''a'', ''b'']) \<and>
   fst (resolve_get 0 \<lparr>req_service = ''gh'', req_user = ''octo'', req_repo = ''hello-world'', req_ref = Some (JArr [''a'', ''b''])\<rparr>
        ref_cache_init) =
     Await \<lparr>pend_user = ''octo'', pend_repo = ''hello-world'', pend_origref = JArr [''a'', ''b''],
            pend_call = \<lparr>call_owner = ''octo'', call_repo = ''hello-world'', call_ref = ''heads/a,b''\<rparr>\<rparr>"
  by (simp add: resolve_get_eq resolve_spec_def ref_cache_read_eq ref_cache_init_def lru_new_def lru_get_def
                gh_get_reference_def gh_reference_def Let_def query_ref_eval)





text \<open>C32: the application implements the specification's \<^verbatim>\<open>Resolve\<close> interface over
  HTTP (section 4.4): a \<open>GET\<close> of \<^verbatim>\<open>/{service}/{user}/{repo}/resolve\<close>, built by a
  client from non-empty names without slashes, with a query whose \<^verbatim>\<open>ref\<close> the
  parser reads as a string or not at all, is answered, with its GitHub callback, with
  the specification's response for those names and that ref (200 \<open>{ref}\<close>, or 404
  with the error body of its error kind), with the CORS header, from a cache with room
  that satisfies the resolver invariant.\<close>

theorem app_refines_spec:
  assumes "resolver_inv c" and "length (lru_list c) < lru_max c" and "string_ref (query_ref q)"
    and "CHR ''/'' \<notin> set s" and "CHR ''/'' \<notin> set u" and "CHR ''/'' \<notin> set r"
    and "s \<noteq> []" and "u \<noteq> []" and "r \<noteq> []"
  shows "fst (app_sync t1 t2 gh \<lparr>rq_method = GET, rq_path = resolve_path s u r, rq_query = q\<rparr> c) =
           with_cors (spec_response (fst (resolve_spec (lru_max_age c) t1 t2 (gh_registry gh)
             \<lparr>req_service = s, req_user = u, req_repo = r, req_ref = query_ref q\<rparr> (ref_cache_abs c))))"
proof -
  let ?q = "\<lparr>req_service = s, req_user = u, req_repo = r, req_ref = query_ref q\<rparr>"
  have sf: "req_slash_free ?q" using assms(4-6) by (simp add: req_slash_free_def)
  have "fst (app_sync t1 t2 gh \<lparr>rq_method = GET, rq_path = resolve_path s u r, rq_query = q\<rparr> c) =
        with_cors (fst (resolve_sync t1 t2 gh ?q c))"
    using app_sync_resolve_path [OF assms(7-9), of t1 t2 gh q c] by (simp add: split_def Let_def)
  also have "\<dots> = with_cors (spec_response (fst (resolve_spec (lru_max_age c) t1 t2 (gh_registry gh) ?q (ref_cache_abs c))))"
    using resolve_sync_refines [OF assms(1) sf assms(2), of t1 t2 gh] assms(3) by simp
  finally show ?thesis .
qed

theorem app_refines_spec_witness:
  "fst (app_sync 0 100 (gh_single ''octo'' ''hello-world'' ''heads/main'' (GitObject ''commit'' ''abc123''))
     \<lparr>rq_method = GET, rq_path = resolve_path ''gh'' ''octo'' ''hello-world'', rq_query = ''ref=main''\<rparr>
     ref_cache_init) =
   with_cors (spec_response (fst (resolve_spec 5000 0 100
     (gh_registry (gh_single ''octo'' ''hello-world'' ''heads/main'' (GitObject ''commit'' ''abc123'')))
     \<lparr>req_service = ''gh'', req_user = ''octo'', req_repo = ''hello-world'', req_ref = Some (JStr ''main'')\<rparr>
     (ref_cache_abs ref_cache_init))))"
proof -
  have h1: "resolver_inv ref_cache_init" by (rule resolver_inv_init)
  have h2: "length (lru_list ref_cache_init) < lru_max ref_cache_init" by simp
  have h3: "string_ref (query_ref ''ref=main'')" by (simp add: query_ref_eval)
  show ?thesis
    using app_refines_spec [OF h1 h2 h3, of "''gh''" "''octo''" "''hello-world''" 0 100
        "gh_single ''octo'' ''hello-world'' ''heads/main'' (GitObject ''commit'' ''abc123'')"]
    by (simp add: query_ref_eval)
qed

end
